theory Spec2Isabelle
  imports Main
begin

section \<open>Data model (src/main.py, lines 18-55)\<close>

text \<open>
  Timestamps (\<open>datetime.datetime.utcnow()\<close>) are abstract points on a linear time line.
  One call of \<open>identify\<close> reads the clock once: the reading is the parameter \<open>now\<close>.
\<close>

type_synonym timestamp = nat

text \<open>
  The row of table \<open>contacts\<close>. The column \<open>id\<close> is written \<open>id'\<close>, since \<open>id\<close> is the
  identity function of HOL. \<open>linkPrecedence\<close> is a \<open>String\<close> column; the code compares it
  with the literals \<open>"primary"\<close> and \<open>"secondary"\<close>.
\<close>

record Contact =
  id' :: int
  phoneNumber :: "string option"
  email :: "string option"
  linkedId :: "int option"
  linkPrecedence :: string
  createdAt :: timestamp
  updatedAt :: timestamp
  deletedAt :: "timestamp option"

text \<open>
  \<open>IdentifyRequest\<close>: its fields \<open>email\<close> and \<open>phoneNumber\<close> carry the prefix \<open>req_\<close>,
  two records of one theory cannot share a field name.
\<close>

record IdentifyRequest =
  req_email :: "string option"
  req_phoneNumber :: "string option"

text \<open>
  \<open>ContactResponse\<close>. \<open>emails\<close> and \<open>phoneNumbers\<close> are built by \<open>list({...})\<close> from a Python
  set, whose iteration order is not fixed: they are sets here. \<open>secondaryContactIds\<close> is a
  list comprehension and keeps the order of the rows.
\<close>

record ContactResponse =
  primaryContactId :: int
  emails :: "string set"
  phoneNumbers :: "string set"
  secondaryContactIds :: "int list"

text \<open>
  The ways a call can end without a response: the \<open>HTTPException\<close> of line 84
  (\<open>InvalidRequest\<close>), \<open>primary_contact.id\<close> on \<open>None\<close> at line 145 (\<open>AttributeError\<close>),
  and a walk of \<open>find_primary_contact\<close> that nests more calls than the interpreter allows
  (\<open>RecursionError\<close>).
\<close>

datatype error = InvalidRequest | AttributeError | RecursionError

text \<open>
  The store is the table as the list of its rows in the order of the table (SQLite keeps
  them by ascending \<open>id\<close>, and an insert appends the row with the largest id). A scan of
  one index for one value returns the rows that have the value in that order.
\<close>

type_synonym store = "Contact list"

section \<open>Helper functions (lines 57-78)\<close>

text \<open>Python truthiness of an \<open>Optional[str]\<close>: \<open>None\<close> and \<open>""\<close> are false.\<close>

definition truthy :: "string option \<Rightarrow> bool" where
  "truthy s = (case s of None \<Rightarrow> False | Some t \<Rightarrow> t \<noteq> [])"

text \<open>
  \<open>db.query(Contact).filter(Contact.id == contact_id).first()\<close>. The argument is a
  \<open>linkedId\<close> and may be \<open>None\<close>: \<open>id IS NULL\<close> selects no row.
\<close>

fun query_by_id :: "store \<Rightarrow> int option \<Rightarrow> Contact option" where
  "query_by_id db None = None"
| "query_by_id db (Some i) = find (\<lambda>c. id' c = i) db"

text \<open>
  \<open>find_primary_contact\<close> (lines 58-66) calls itself once for each link it follows, and
  Python keeps a frame for each call. The first argument is the number of nested calls
  that the interpreter still allows when line 142 makes the first one (the recursion limit
  less the frames in use); a call beyond it raises \<open>RecursionError\<close>. Otherwise the result is
  the Python result, \<open>None\<close> or a contact.
\<close>

fun find_primary_contact :: "nat \<Rightarrow> store \<Rightarrow> int option \<Rightarrow> error + Contact option" where
  "find_primary_contact 0 db contact_id = Inl RecursionError"
| "find_primary_contact (Suc depth) db contact_id =
     (case query_by_id db contact_id of
        None \<Rightarrow> Inr None
      | Some contact \<Rightarrow>
          if linkPrecedence contact = ''primary'' then Inr (Some contact)
          else find_primary_contact depth db (linkedId contact))"

text \<open>\<open>get_all_linked_contacts\<close> (lines 68-78).\<close>

definition get_all_linked_contacts :: "store \<Rightarrow> int \<Rightarrow> Contact list" where
  "get_all_linked_contacts db primary_id =
     (case query_by_id db (Some primary_id) of
        None \<Rightarrow> []
      | Some primary_contact \<Rightarrow>
          if linkPrecedence primary_contact \<noteq> ''primary'' then []
          else primary_contact #
               filter (\<lambda>c. linkedId c = Some primary_id \<and> linkPrecedence c = ''secondary'') db)"

section \<open>The endpoint \<open>identify\<close> (lines 80-177)\<close>

text \<open>
  The id of an inserted row: the column is an \<open>INTEGER PRIMARY KEY\<close> of SQLite, which gives
  a new row the largest id of the table plus one, and 1 in an empty table.
\<close>

definition next_id :: "store \<Rightarrow> int" where
  "next_id db = (case map id' db of [] \<Rightarrow> 1 | i # is \<Rightarrow> fold max is i + 1)"

text \<open>
  Lines 87-96: the \<open>OR\<close> of one clause per truthy field of the request, the email clause
  first. Both columns are indexed, and SQLite answers the \<open>OR\<close> clause by clause: first the
  rows that the index on \<open>email\<close> gives for the email, then the rows that the index on
  \<open>phoneNumber\<close> gives for the phone number and that it has not returned yet.
\<close>

definition matching_contacts :: "IdentifyRequest \<Rightarrow> store \<Rightarrow> Contact list" where
  "matching_contacts request db =
     filter (\<lambda>c. truthy (req_email request) \<and> email c = req_email request) db @
     filter (\<lambda>c. (truthy (req_phoneNumber request) \<and> phoneNumber c = req_phoneNumber request) \<and>
                 \<not> (truthy (req_email request) \<and> email c = req_email request)) db"

text \<open>Lines 100-107: the row inserted when nothing matches.\<close>

definition new_contact :: "IdentifyRequest \<Rightarrow> timestamp \<Rightarrow> store \<Rightarrow> Contact" where
  "new_contact request now db =
     \<lparr>id' = next_id db, phoneNumber = req_phoneNumber request, email = req_email request,
      linkedId = None, linkPrecedence = ''primary'', createdAt = now, updatedAt = now,
      deletedAt = None\<rparr>"

text \<open>Lines 154-162: the row inserted by the novelty check.\<close>

definition new_secondary :: "IdentifyRequest \<Rightarrow> timestamp \<Rightarrow> int \<Rightarrow> store \<Rightarrow> Contact" where
  "new_secondary request now primary_id db =
     \<lparr>id' = next_id db, phoneNumber = req_phoneNumber request, email = req_email request,
      linkedId = Some primary_id, linkPrecedence = ''secondary'', createdAt = now,
      updatedAt = now, deletedAt = None\<rparr>"

text \<open>Line 119.\<close>

definition primaries_of :: "Contact list \<Rightarrow> Contact list" where
  "primaries_of matching = filter (\<lambda>c. linkPrecedence c = ''primary'') matching"

text \<open>
  Lines 122-126: with more than one matched primary the list is sorted in place by
  \<open>createdAt\<close> (Python's sort is stable, and so is \<open>sort_key\<close>: primaries created at the
  same time stay in the order of the query); otherwise it stays as the query returned it.
\<close>

definition sorted_primaries :: "Contact list \<Rightarrow> Contact list" where
  "sorted_primaries primary_contacts =
     (if length primary_contacts > 1 then sort_key createdAt primary_contacts
      else primary_contacts)"

text \<open>Lines 130-132: the three assignments of the loop body.\<close>

definition demote :: "timestamp \<Rightarrow> int \<Rightarrow> Contact \<Rightarrow> Contact" where
  "demote now oldest_id contact =
     contact\<lparr>linkPrecedence := ''secondary'', linkedId := Some oldest_id, updatedAt := now\<rparr>"

text \<open>
  Lines 122-134: the store after the first \<open>db.commit()\<close>. The loop assigns to the mapped
  objects of \<open>other_primaries\<close>; the commit writes each of them back to the row of its id.
\<close>

definition consolidate :: "timestamp \<Rightarrow> Contact list \<Rightarrow> store \<Rightarrow> store" where
  "consolidate now primary_contacts db =
     (if length primary_contacts > 1 then
        let oldest_primary = hd (sorted_primaries primary_contacts);
            other_primaries = tl (sorted_primaries primary_contacts)
        in map (\<lambda>c. if id' c \<in> set (map id' other_primaries)
                     then demote now (id' oldest_primary) c else c) db
      else db)"

text \<open>
  Lines 137-142: the working primary, on the store \<open>db1\<close> left by lines 122-134. The
  argument \<open>matching\<close> is not empty here; \<open>depth\<close> is the number of nested calls allowed to
  \<open>find_primary_contact\<close>.
\<close>

definition resolve_primary :: "nat \<Rightarrow> Contact list \<Rightarrow> store \<Rightarrow> error + Contact option" where
  "resolve_primary depth matching db1 =
     (if primaries_of matching \<noteq> [] then Inr (Some (hd (sorted_primaries (primaries_of matching))))
      else find_primary_contact depth db1 (linkedId (hd matching)))"

text \<open>Lines 148-152: the novelty check on the contacts linked to the working primary.\<close>

definition truthy_values :: "string option list \<Rightarrow> string list" where
  "truthy_values xs = map the (filter truthy xs)"

definition needs_secondary :: "IdentifyRequest \<Rightarrow> Contact list \<Rightarrow> bool" where
  "needs_secondary request all_linked_contacts =
     (let existing_emails = set (truthy_values (map email all_linked_contacts));
          existing_phones = set (truthy_values (map phoneNumber all_linked_contacts))
      in (truthy (req_email request) \<and> the (req_email request) \<notin> existing_emails) \<or>
         (truthy (req_phoneNumber request) \<and> the (req_phoneNumber request) \<notin> existing_phones))"

text \<open>Lines 166-177.\<close>

definition build_response :: "int \<Rightarrow> Contact list \<Rightarrow> ContactResponse" where
  "build_response primary_id all_linked_contacts =
     \<lparr>primaryContactId = primary_id,
      emails = set (truthy_values (map email all_linked_contacts)),
      phoneNumbers = set (truthy_values (map phoneNumber all_linked_contacts)),
      secondaryContactIds =
        map id' (filter (\<lambda>c. linkPrecedence c = ''secondary'') all_linked_contacts)\<rparr>"

text \<open>
  \<open>identify\<close>: the outcome of the call and the store it leaves behind. An exception leaves
  the store as the last commit before it made it. The first argument is the depth that the
  interpreter allows to \<open>find_primary_contact\<close>.
\<close>

definition identify ::
  "nat \<Rightarrow> IdentifyRequest \<Rightarrow> timestamp \<Rightarrow> store \<Rightarrow> (error + ContactResponse) \<times> store" where
  "identify depth request now db =
     (if \<not> truthy (req_email request) \<and> \<not> truthy (req_phoneNumber request)
      then (Inl InvalidRequest, db)
      else
        let matching = matching_contacts request db in
        if matching = [] then
          let c = new_contact request now db
          in (Inr \<lparr>primaryContactId = id' c,
                   emails = set (truthy_values [email c]),
                   phoneNumbers = set (truthy_values [phoneNumber c]),
                   secondaryContactIds = []\<rparr>,
              db @ [c])
        else
          let db1 = consolidate now (primaries_of matching) db in
          case resolve_primary depth matching db1 of
            Inl e \<Rightarrow> (Inl e, db1)
          | Inr None \<Rightarrow> (Inl AttributeError, db1)
          | Inr (Some primary_contact) \<Rightarrow>
              let all_linked_contacts = get_all_linked_contacts db1 (id' primary_contact) in
              if needs_secondary request all_linked_contacts then
                let s = new_secondary request now (id' primary_contact) db1
                in (Inr (build_response (id' primary_contact) (all_linked_contacts @ [s])),
                    db1 @ [s])
              else (Inr (build_response (id' primary_contact) all_linked_contacts), db1))"

text \<open>
  The stores written by the \<open>db.commit()\<close> calls of one run of \<open>identify\<close>, in order:
  line 106 (no match), line 134 (after the demotions) and line 161 (after the insert of a
  secondary).
\<close>

definition identify_commits :: "nat \<Rightarrow> IdentifyRequest \<Rightarrow> timestamp \<Rightarrow> store \<Rightarrow> store list" where
  "identify_commits depth request now db =
     (if \<not> truthy (req_email request) \<and> \<not> truthy (req_phoneNumber request) then []
      else
        let matching = matching_contacts request db in
        if matching = [] then [db @ [new_contact request now db]]
        else
          let db1 = consolidate now (primaries_of matching) db in
          (if length (primaries_of matching) > 1 then [db1] else []) @
          (case resolve_primary depth matching db1 of
             Inl e \<Rightarrow> []
           | Inr None \<Rightarrow> []
           | Inr (Some primary_contact) \<Rightarrow>
               if needs_secondary request (get_all_linked_contacts db1 (id' primary_contact))
               then [db1 @ [new_secondary request now (id' primary_contact) db1]]
               else []))"

section \<open>Store constraints and link chains\<close>

text \<open>
  The key constraints of the table: \<open>id\<close> is the primary key, so no two rows share one,
  and a \<open>linkedId\<close> that is set is the id of a row of the table.
\<close>

definition wf_store :: "store \<Rightarrow> bool" where
  "wf_store db =
     (distinct (map id' db) \<and>
      list_all (\<lambda>c. case linkedId c of None \<Rightarrow> True | Some i \<Rightarrow> i \<in> set (map id' db)) db)"

text \<open>
  The first row that the query of lines 87-96 returns: the first row of the table with the
  given email when there is one, otherwise the first row with the given phone number.
\<close>

definition first_match :: "IdentifyRequest \<Rightarrow> store \<Rightarrow> Contact option" where
  "first_match request db =
     (case find (\<lambda>c. truthy (req_email request) \<and> email c = req_email request) db of
        Some c \<Rightarrow> Some c
      | None \<Rightarrow> find (\<lambda>c. truthy (req_phoneNumber request) \<and>
                          phoneNumber c = req_phoneNumber request) db)"

text \<open>
  \<open>ultimate_primary db i n p\<close>: \<open>i\<close> is the id of a row of the store, and the chain of
  \<open>linkedId\<close> links that starts at that row passes through \<open>n\<close> rows that are not primary
  and then ends at the row \<open>p\<close>, which is primary.
\<close>

inductive ultimate_primary :: "store \<Rightarrow> int option \<Rightarrow> nat \<Rightarrow> Contact \<Rightarrow> bool" for db :: store where
  here: "c \<in> set db \<Longrightarrow> linkPrecedence c = ''primary'' \<Longrightarrow> ultimate_primary db (Some (id' c)) 0 c"
| hop: "c \<in> set db \<Longrightarrow> linkPrecedence c \<noteq> ''primary'' \<Longrightarrow>
        ultimate_primary db (linkedId c) n p \<Longrightarrow> ultimate_primary db (Some (id' c)) (Suc n) p"

text \<open>No two primaries of the store carry the same (truthy) email or the same phone number.\<close>

definition primaries_unshared :: "store \<Rightarrow> bool" where
  "primaries_unshared db =
     (\<forall>c\<in>set db. \<forall>d\<in>set db.
        linkPrecedence c = ''primary'' \<and> linkPrecedence d = ''primary'' \<and> c \<noteq> d \<longrightarrow>
        \<not> (truthy (email c) \<and> email c = email d) \<and>
        \<not> (truthy (phoneNumber c) \<and> phoneNumber c = phoneNumber d))"

text \<open>
  The two-level shape of the links: no \<open>linkedId\<close> of the store leads to a row that has a
  \<open>linkedId\<close> of its own.
\<close>

definition two_level :: "store \<Rightarrow> bool" where
  "two_level db =
     list_all (\<lambda>c. list_all (\<lambda>d. linkedId c = Some (id' d) \<longrightarrow> linkedId d = None) db) db"

section \<open>Sample rows\<close>

text \<open>
  A row as the code inserts it: \<open>updatedAt\<close> equal to \<open>createdAt\<close>, no \<open>deletedAt\<close>. The
  concrete stores below are written with it.
\<close>

definition contact_row ::
  "int \<Rightarrow> string option \<Rightarrow> string option \<Rightarrow> int option \<Rightarrow> string \<Rightarrow> timestamp \<Rightarrow> Contact" where
  "contact_row i e p l prec t =
     \<lparr>id' = i, phoneNumber = p, email = e, linkedId = l, linkPrecedence = prec,
      createdAt = t, updatedAt = t, deletedAt = None\<rparr>"

text \<open>
  A chain of \<open>n\<close> rows: the row of id 1 is primary, and the row of each id \<open>k > 1\<close> is a
  secondary linked to the row of id \<open>k - 1\<close>. The email of row \<open>k\<close> is \<open>k\<close> letters long.
\<close>

definition chain_row :: "nat \<Rightarrow> Contact" where
  "chain_row k =
     contact_row (int k) (Some (replicate k (CHR ''x''))) None
       (if k \<le> 1 then None else Some (int k - 1))
       (if k \<le> 1 then ''primary'' else ''secondary'') k"

definition chain_store :: "nat \<Rightarrow> store" where
  "chain_store n = map chain_row [1..<Suc n]"

section \<open>Invalid requests\<close>

lemma truthy_simps [simp]:
  "truthy None = False" "truthy (Some t) = (t \<noteq> [])"
  by (simp_all add: truthy_def)

text \<open>
  C6. A request in which neither field is present (each is \<open>None\<close>; an empty string counts
  the same, see C9) fails with \<open>InvalidRequest\<close> whatever the store holds, leaves the store
  exactly as it was, and commits nothing.
\<close>

theorem identify_invalid_request:
  "identify depth \<lparr>req_email = None, req_phoneNumber = None\<rparr> now db = (Inl InvalidRequest, db) \<and>
   identify_commits depth \<lparr>req_email = None, req_phoneNumber = None\<rparr> now db = []"
  by (simp add: identify_def identify_commits_def)

text \<open>
  C9. An empty string is falsy at both tests of the request (lines 83 and 90-94): a
  request whose fields are empty strings, or one empty and one absent, fails with
  \<open>InvalidRequest\<close> and leaves the store as it was, and an empty-string field selects the
  same rows as an absent one, so no row is matched on an empty string.
\<close>

theorem identify_empty_strings:
  "identify depth \<lparr>req_email = Some [], req_phoneNumber = Some []\<rparr> now db = (Inl InvalidRequest, db) \<and>
   identify depth \<lparr>req_email = Some [], req_phoneNumber = None\<rparr> now db = (Inl InvalidRequest, db) \<and>
   identify depth \<lparr>req_email = None, req_phoneNumber = Some []\<rparr> now db = (Inl InvalidRequest, db) \<and>
   matching_contacts \<lparr>req_email = Some [], req_phoneNumber = p\<rparr> db =
     matching_contacts \<lparr>req_email = None, req_phoneNumber = p\<rparr> db \<and>
   matching_contacts \<lparr>req_email = e, req_phoneNumber = Some []\<rparr> db =
     matching_contacts \<lparr>req_email = e, req_phoneNumber = None\<rparr> db"
  by (simp add: identify_def matching_contacts_def)

section \<open>Fresh ids\<close>

lemma fold_max_ge: "(a::int) \<le> fold max xs a \<and> (\<forall>x\<in>set xs. x \<le> fold max xs a)"
proof (induction xs arbitrary: a)
  case Nil
  show ?case by simp
next
  case (Cons y ys)
  have h: "max y a \<le> fold max ys (max y a) \<and> (\<forall>x\<in>set ys. x \<le> fold max ys (max y a))"
    by (rule Cons.IH)
  then show ?case by auto
qed

lemma next_id_greater: "c \<in> set db \<Longrightarrow> id' c < next_id db"
proof (cases db)
  case Nil
  assume "c \<in> set db"
  with Nil show ?thesis by simp
next
  case (Cons d ds)
  assume "c \<in> set db"
  with Cons have "c = d \<or> c \<in> set ds" by simp
  moreover have "id' d \<le> fold max (map id' ds) (id' d)"
    using fold_max_ge [of "id' d" "map id' ds"] by simp
  moreover have "c \<in> set ds \<Longrightarrow> id' c \<le> fold max (map id' ds) (id' d)"
    using fold_max_ge [of "id' d" "map id' ds"] by simp
  ultimately show ?thesis
    using Cons by (auto simp: next_id_def)
qed

lemma next_id_fresh: "next_id db \<notin> set (map id' db)"
  using next_id_greater by fastforce

section \<open>A request that matches nothing\<close>

text \<open>
  C5. When no row matches a request that carries a truthy email or phone number, \<open>identify\<close>
  appends exactly one row: primary, without \<open>linkedId\<close>, with the email and phone number
  of the request and an id that no row had. The response names the new id as primary and
  no secondary; \<open>emails\<close> holds the given email and \<open>phoneNumbers\<close> the given phone number
  (nothing for a field that is absent or empty, line 112-113).
\<close>

theorem identify_no_match:
  assumes valid: "truthy e \<or> truthy p"
    and none: "matching_contacts \<lparr>req_email = e, req_phoneNumber = p\<rparr> db = []"
  shows "identify depth \<lparr>req_email = e, req_phoneNumber = p\<rparr> now db =
           (Inr \<lparr>primaryContactId = next_id db,
                 emails = (if truthy e then {the e} else {}),
                 phoneNumbers = (if truthy p then {the p} else {}),
                 secondaryContactIds = []\<rparr>,
            db @ [\<lparr>id' = next_id db, phoneNumber = p, email = e, linkedId = None,
                   linkPrecedence = ''primary'', createdAt = now, updatedAt = now,
                   deletedAt = None\<rparr>]) \<and>
         next_id db \<notin> set (map id' db)"
  using valid none next_id_fresh [of db]
  by (auto simp: identify_def new_contact_def truthy_values_def)

theorem identify_no_match_witness:
  "identify 900 \<lparr>req_email = Some ''a@x'', req_phoneNumber = Some ''123''\<rparr> 7
     [\<lparr>id' = 4, phoneNumber = Some ''555'', email = None, linkedId = None,
       linkPrecedence = ''primary'', createdAt = 2, updatedAt = 2, deletedAt = None\<rparr>] =
     (Inr \<lparr>primaryContactId = 5, emails = {''a@x''}, phoneNumbers = {''123''},
           secondaryContactIds = []\<rparr>,
      [\<lparr>id' = 4, phoneNumber = Some ''555'', email = None, linkedId = None,
        linkPrecedence = ''primary'', createdAt = 2, updatedAt = 2, deletedAt = None\<rparr>,
       \<lparr>id' = 5, phoneNumber = Some ''123'', email = Some ''a@x'', linkedId = None,
        linkPrecedence = ''primary'', createdAt = 7, updatedAt = 7, deletedAt = None\<rparr>])"
  using identify_no_match [of "Some ''a@x''" "Some ''123''"
     "[\<lparr>id' = 4, phoneNumber = Some ''555'', email = None, linkedId = None,
       linkPrecedence = ''primary'', createdAt = 2, updatedAt = 2, deletedAt = None\<rparr>]" 900 7]
  by (simp add: matching_contacts_def next_id_def)

section \<open>The merge of several matched primaries\<close>

lemmas identify_defs = identify_def matching_contacts_def new_contact_def new_secondary_def
  next_id_def truthy_values_def primaries_of_def consolidate_def sorted_primaries_def
  resolve_primary_def get_all_linked_contacts_def needs_secondary_def build_response_def demote_def

lemma id_mem_iff:
  assumes "distinct (map id' db)" "set xs \<subseteq> set db" "c \<in> set db"
  shows "id' c \<in> set (map id' xs) \<longleftrightarrow> c \<in> set xs"
proof -
  have inj: "inj_on id' (set db)" using assms(1) by (simp add: distinct_map)
  show ?thesis
  proof
    assume "id' c \<in> set (map id' xs)"
    then obtain d where d: "d \<in> set xs" "id' d = id' c" by auto
    with assms(2) have "d \<in> set db" by auto
    with inj d(2) assms(3) have "d = c" by (auto dest: inj_onD)
    with d(1) show "c \<in> set xs" by simp
  next
    assume "c \<in> set xs" then show "id' c \<in> set (map id' xs)" by simp
  qed
qed

lemma consolidate_by_rows:
  assumes "distinct (map id' db)" "set ps \<subseteq> set db" "length ps > 1"
  shows "consolidate now ps db =
         map (\<lambda>c. if c \<in> set (tl (sort_key createdAt ps))
                   then demote now (id' (hd (sort_key createdAt ps))) c else c) db"
proof -
  have sub: "set (tl (sort_key createdAt ps)) \<subseteq> set db"
  proof
    fix x assume "x \<in> set (tl (sort_key createdAt ps))"
    then have "x \<in> set (sort_key createdAt ps)" by (cases "sort_key createdAt ps") auto
    then show "x \<in> set db" using assms(2) by auto
  qed
  show ?thesis
    using assms(3) id_mem_iff [OF assms(1) sub]
    by (simp add: consolidate_def sorted_primaries_def Let_def cong: map_cong)
qed

lemma hd_sort_key_mem: "ps \<noteq> [] \<Longrightarrow> hd (sort_key f ps) \<in> set ps"
proof -
  assume "ps \<noteq> []"
  then have "sort_key f ps \<noteq> []" by (metis length_sort length_0_conv)
  then show ?thesis using hd_in_set [of "sort_key f ps"] by simp
qed

lemma hd_notin_tl_distinct: "distinct xs \<Longrightarrow> xs \<noteq> [] \<Longrightarrow> hd xs \<notin> set (tl xs)"
  by (cases xs) auto

lemma hd_sort_key_least: "x \<in> set ps \<Longrightarrow> f (hd (sort_key f ps)) \<le> f x"
proof -
  assume x: "x \<in> set ps"
  then have ne: "sort_key f ps \<noteq> []" by (metis length_sort length_0_conv empty_iff list.set(1))
  have srt: "sorted (map f (sort_key f ps))" by (rule sorted_sort_key)
  from x have xs: "x \<in> set (sort_key f ps)" by simp
  from ne obtain y ys where yys: "sort_key f ps = y # ys" by (cases "sort_key f ps") auto
  with srt xs show ?thesis by auto
qed

lemma matching_set:
  "set (matching_contacts request db) =
     {c \<in> set db. (truthy (req_email request) \<and> email c = req_email request) \<or>
                    (truthy (req_phoneNumber request) \<and> phoneNumber c = req_phoneNumber request)}"
  by (auto simp: matching_contacts_def)

lemma matching_distinct: "distinct db \<Longrightarrow> distinct (matching_contacts request db)"
  by (auto simp: matching_contacts_def)

lemma primaries_subset: "set (primaries_of (matching_contacts request db)) \<subseteq> set db"
  by (auto simp: primaries_of_def matching_set)

lemma primaries_distinct:
  assumes "distinct (map id' db)"
  shows "distinct (map id' (primaries_of (matching_contacts request db)))"
proof -
  have "distinct db" and inj: "inj_on id' (set db)" using assms by (simp_all add: distinct_map)
  then have "distinct (primaries_of (matching_contacts request db))"
    by (simp add: primaries_of_def matching_distinct)
  moreover have "inj_on id' (set (primaries_of (matching_contacts request db)))"
    using inj primaries_subset by (rule inj_on_subset)
  ultimately show ?thesis by (simp add: distinct_map)
qed

lemma demote_fields [simp]:
  "id' (demote now i c) = id' c" "email (demote now i c) = email c"
  "phoneNumber (demote now i c) = phoneNumber c" "linkedId (demote now i c) = Some i"
  "linkPrecedence (demote now i c) = ''secondary''" "createdAt (demote now i c) = createdAt c"
  by (simp_all add: demote_def)

lemma merge_shape:
  assumes ids: "distinct (map id' db)"
    and many: "length (primaries_of (matching_contacts request db)) > 1"
  obtains oldest others where
    "sort_key createdAt (primaries_of (matching_contacts request db)) = oldest # others"
    "oldest \<in> set db" "linkPrecedence oldest = ''primary''" "oldest \<notin> set others"
    "set others \<subseteq> set db"
    "set (primaries_of (matching_contacts request db)) = insert oldest (set others)"
    "consolidate now (primaries_of (matching_contacts request db)) db =
       map (\<lambda>c. if c \<in> set others then demote now (id' oldest) c else c) db"
    "resolve_primary depth (matching_contacts request db)
       (consolidate now (primaries_of (matching_contacts request db)) db) = Inr (Some oldest)"
proof -
  define ps where "ps = primaries_of (matching_contacts request db)"
  have ne: "ps \<noteq> []" using many by (auto simp: ps_def)
  then have "sort_key createdAt ps \<noteq> []" by (metis length_sort length_0_conv)
  then obtain oldest others where srt: "sort_key createdAt ps = oldest # others"
    by (cases "sort_key createdAt ps") auto
  have sub: "set ps \<subseteq> set db" unfolding ps_def by (rule primaries_subset)
  have sps: "set ps = insert oldest (set others)"
    using srt set_sort [of createdAt ps] by simp
  then have o_db: "oldest \<in> set db" and o_prim: "linkPrecedence oldest = ''primary''"
    and oth: "set others \<subseteq> set db"
    using sub by (auto simp: ps_def primaries_of_def)
  have "distinct (map id' ps)" unfolding ps_def using ids by (rule primaries_distinct)
  then have "distinct ps" by (rule distinct_map [THEN iffD1, THEN conjunct1])
  then have "distinct (sort_key createdAt ps)" by simp
  with srt have o_not: "oldest \<notin> set others" by simp
  have db1: "consolidate now ps db =
      map (\<lambda>c. if c \<in> set others then demote now (id' oldest) c else c) db"
    using consolidate_by_rows [OF ids sub, of now] many srt by (simp add: ps_def)
  have res: "resolve_primary depth (matching_contacts request db) (consolidate now ps db) =
      Inr (Some oldest)"
    using ne many srt by (simp add: resolve_primary_def ps_def [symmetric] sorted_primaries_def)
  show thesis
    using that [OF srt [unfolded ps_def] o_db o_prim o_not oth sps [unfolded ps_def]
        db1 [unfolded ps_def] res [unfolded ps_def]] .
qed

text \<open>
  C1 (as the code has it). Lines 122-134 demote the matched primaries other than the
  surviving one and touch no other row. The surviving primary is the head of the matched
  primaries sorted by \<open>createdAt\<close>: none of them was created earlier, and of those created
  at the same time it is the one the query returned first. On a store with unique ids,
  after a call that finds more than one matched primary, each of the other matched
  primaries is secondary with \<open>linkedId\<close> the id of the surviving primary and \<open>updatedAt\<close>
  the time of the call, the surviving primary is a primary row of the store that is not
  demoted, and every other row that was in the store is exactly as before. In particular a
  row whose \<open>linkedId\<close> is the id of a demoted primary keeps that \<open>linkedId\<close>: nothing
  re-points it.
\<close>

theorem identify_merge_demotes:
  assumes ids: "distinct (map id' db)"
    and valid: "truthy (req_email request) \<or> truthy (req_phoneNumber request)"
    and many: "length (primaries_of (matching_contacts request db)) > 1"
  shows "\<exists>oldest others.
           sort_key createdAt (primaries_of (matching_contacts request db)) = oldest # others \<and>
           oldest \<in> set db \<and> linkPrecedence oldest = ''primary'' \<and> oldest \<notin> set others \<and>
           (\<forall>c\<in>set others. createdAt oldest \<le> createdAt c) \<and>
           take (length db) (snd (identify depth request now db)) =
             map (\<lambda>c. if c \<in> set others
                       then c\<lparr>linkPrecedence := ''secondary'', linkedId := Some (id' oldest),
                              updatedAt := now\<rparr>
                       else c) db"
proof -
  let ?ps = "primaries_of (matching_contacts request db)"
  obtain oldest others where
    srt: "sort_key createdAt ?ps = oldest # others"
    and o_db: "oldest \<in> set db" and o_prim: "linkPrecedence oldest = ''primary''"
    and o_not: "oldest \<notin> set others"
    and sps: "set ?ps = insert oldest (set others)"
    and db1: "consolidate now ?ps db =
       map (\<lambda>c. if c \<in> set others then demote now (id' oldest) c else c) db"
    and res: "resolve_primary depth (matching_contacts request db) (consolidate now ?ps db) =
       Inr (Some oldest)"
    by (rule merge_shape [OF ids many, of now depth])
  have least: "\<forall>c\<in>set others. createdAt oldest \<le> createdAt c"
  proof
    fix c assume "c \<in> set others"
    with sps have "c \<in> set ?ps" by simp
    then have "createdAt (hd (sort_key createdAt ?ps)) \<le> createdAt c" by (rule hd_sort_key_least)
    with srt show "createdAt oldest \<le> createdAt c" by simp
  qed
  have mne: "matching_contacts request db \<noteq> []" using many by (auto simp: primaries_of_def)
  have "take (length db) (snd (identify depth request now db)) = consolidate now ?ps db"
    using valid mne res by (auto simp: identify_def Let_def consolidate_def)
  with db1 have "take (length db) (snd (identify depth request now db)) =
      map (\<lambda>c. if c \<in> set others then demote now (id' oldest) c else c) db" by simp
  then show ?thesis using srt o_db o_prim o_not least unfolding demote_def by blast
qed

text \<open>
  C1 (as stated) fails: primaries 1 and 2 are merged by a request with the email of 1 and
  the phone number of 2; row 3 was linked to 2 and still is, while 2 now has a \<open>linkedId\<close>
  of its own.
\<close>

theorem identify_merge_not_two_level:
  "length (primaries_of (matching_contacts \<lparr>req_email = Some ''a'', req_phoneNumber = Some ''2''\<rparr>
      [contact_row 1 (Some ''a'') (Some ''1'') None ''primary'' 1,
       contact_row 2 (Some ''b'') (Some ''2'') None ''primary'' 2,
       contact_row 3 (Some ''c'') (Some ''3'') (Some 2) ''secondary'' 3])) > 1 \<and>
   snd (identify 900 \<lparr>req_email = Some ''a'', req_phoneNumber = Some ''2''\<rparr> 9
      [contact_row 1 (Some ''a'') (Some ''1'') None ''primary'' 1,
       contact_row 2 (Some ''b'') (Some ''2'') None ''primary'' 2,
       contact_row 3 (Some ''c'') (Some ''3'') (Some 2) ''secondary'' 3]) =
      [contact_row 1 (Some ''a'') (Some ''1'') None ''primary'' 1,
       (contact_row 2 (Some ''b'') (Some ''2'') (Some 1) ''secondary'' 2)\<lparr>updatedAt := 9\<rparr>,
       contact_row 3 (Some ''c'') (Some ''3'') (Some 2) ''secondary'' 3] \<and>
   \<not> two_level (snd (identify 900 \<lparr>req_email = Some ''a'', req_phoneNumber = Some ''2''\<rparr> 9
      [contact_row 1 (Some ''a'') (Some ''1'') None ''primary'' 1,
       contact_row 2 (Some ''b'') (Some ''2'') None ''primary'' 2,
       contact_row 3 (Some ''c'') (Some ''3'') (Some 2) ''secondary'' 3]))"
  by code_simp

text \<open>
  The instance below is a tie: both primaries were created at time 5. The query returns row 2
  first (it has the email), so row 2 survives and row 1 is demoted.
\<close>

theorem identify_merge_demotes_witness:
  "take 2 (snd (identify 900 \<lparr>req_email = Some ''b'', req_phoneNumber = Some ''1''\<rparr> 9
      [contact_row 1 (Some ''a'') (Some ''1'') None ''primary'' 5,
       contact_row 2 (Some ''b'') (Some ''2'') None ''primary'' 5])) =
      [(contact_row 1 (Some ''a'') (Some ''1'') (Some 2) ''secondary'' 5)\<lparr>updatedAt := 9\<rparr>,
       contact_row 2 (Some ''b'') (Some ''2'') None ''primary'' 5]"
proof -
  let ?db = "[contact_row 1 (Some ''a'') (Some ''1'') None ''primary'' 5,
       contact_row 2 (Some ''b'') (Some ''2'') None ''primary'' 5]"
  let ?rq = "\<lparr>req_email = Some ''b'', req_phoneNumber = Some ''1''\<rparr>"
  have h1: "distinct (map id' ?db)" by (simp add: contact_row_def)
  have h2: "truthy (req_email ?rq) \<or> truthy (req_phoneNumber ?rq)" by simp
  have ps: "primaries_of (matching_contacts ?rq ?db) =
     [contact_row 2 (Some ''b'') (Some ''2'') None ''primary'' 5,
      contact_row 1 (Some ''a'') (Some ''1'') None ''primary'' 5]"
    by code_simp
  have h3: "length (primaries_of (matching_contacts ?rq ?db)) > 1" unfolding ps by simp
  from identify_merge_demotes [OF h1 h2 h3, of 900 9] obtain oldest others where
    srt: "sort_key createdAt (primaries_of (matching_contacts ?rq ?db)) = oldest # others"
    and tk: "take (length ?db) (snd (identify 900 ?rq 9 ?db)) =
             map (\<lambda>c. if c \<in> set others
                       then c\<lparr>linkPrecedence := ''secondary'', linkedId := Some (id' oldest),
                              updatedAt := 9\<rparr>
                       else c) ?db" by blast
  from srt have "oldest = contact_row 2 (Some ''b'') (Some ''2'') None ''primary'' 5 \<and>
     others = [contact_row 1 (Some ''a'') (Some ''1'') None ''primary'' 5]"
    unfolding ps by (simp add: contact_row_def)
  with tk show ?thesis by (simp add: contact_row_def numeral_2_eq_2)
qed

section \<open>Queries on stores with unique ids\<close>

lemma query_by_id_row:
  "distinct (map id' db) \<Longrightarrow> c \<in> set db \<Longrightarrow> query_by_id db (Some (id' c)) = Some c"
proof (induction db)
  case Nil
  then show ?case by simp
next
  case (Cons d ds)
  then show ?case by (cases "c = d") (auto simp: rev_image_eqI)
qed

lemma query_by_id_map:
  assumes "\<And>c. id' (f c) = id' c"
  shows "query_by_id (map f db) i = map_option f (query_by_id db i)"
proof (cases i)
  case None
  then show ?thesis by simp
next
  case (Some j)
  have "find (\<lambda>c. id' c = j) (map f db) = map_option f (find (\<lambda>c. id' c = j) db)"
    by (induction db) (simp_all add: assms)
  with Some show ?thesis by simp
qed

lemma filter_eq_single: "distinct xs \<Longrightarrow> b \<in> set xs \<Longrightarrow> filter (\<lambda>c. c = b) xs = [b]"
proof (induction xs)
  case Nil
  then show ?case by simp
next
  case (Cons x xs)
  show ?case
  proof (cases "x = b")
    case True
    with Cons.prems have "b \<notin> set xs" by simp
    then have "filter (\<lambda>c. c = b) xs = []" by (auto simp: filter_empty_conv)
    with True show ?thesis by simp
  next
    case False
    with Cons show ?thesis by simp
  qed
qed

lemma distinct_pair:
  assumes "distinct xs" "set xs = {a, b}" "a \<noteq> b"
  shows "xs = [a, b] \<or> xs = [b, a]"
proof -
  have "length xs = card {a, b}" using assms(1,2) distinct_card by fastforce
  with assms(3) have "length xs = 2" by simp
  then obtain x y where "xs = [x, y]"
    by (cases xs; cases "tl xs") auto
  with assms(2,3) show ?thesis by (auto simp: doubleton_eq_iff)
qed

section \<open>The merge tie-break\<close>

text \<open>
  C2. The store has unique ids and holds two primaries \<open>A\<close> with \<open>(eA, pA)\<close> and \<open>B\<close> with
  \<open>(eB, pB)\<close>, \<open>A\<close> created before \<open>B\<close>. They are independent: no other primary carries
  \<open>eA\<close> or \<open>pB\<close>, and \<open>A\<close> has no secondary yet. Then \<open>identify (eA, pB)\<close> keeps \<open>A\<close>,
  turns \<open>B\<close> into a secondary with \<open>linkedId\<close> the id of \<open>A\<close> and \<open>updatedAt\<close> the time of the
  call, changes no other row and inserts none, and answers with \<open>A\<close> as primary, \<open>B\<close> as
  the secondary, the emails \<open>{eA, eB}\<close> and the phone numbers \<open>{pA, pB}\<close>.
\<close>

theorem identify_merge_tie_break:
  assumes ids: "distinct (map id' db)"
    and A: "A \<in> set db" "linkPrecedence A = ''primary''" "email A = Some eA" "phoneNumber A = Some pA"
    and B: "B \<in> set db" "linkPrecedence B = ''primary''" "email B = Some eB" "phoneNumber B = Some pB"
    and given: "eA \<noteq> []" "pA \<noteq> []" "eB \<noteq> []" "pB \<noteq> []"
    and older: "createdAt A < createdAt B"
    and only: "\<forall>c\<in>set db. linkPrecedence c = ''primary'' \<and> (email c = Some eA \<or> phoneNumber c = Some pB)
                 \<longrightarrow> c = A \<or> c = B"
    and indep: "\<forall>c\<in>set db. linkPrecedence c = ''secondary'' \<longrightarrow> linkedId c \<noteq> Some (id' A)"
  shows "identify depth \<lparr>req_email = Some eA, req_phoneNumber = Some pB\<rparr> now db =
           (Inr \<lparr>primaryContactId = id' A, emails = {eA, eB}, phoneNumbers = {pA, pB},
                 secondaryContactIds = [id' B]\<rparr>,
            map (\<lambda>c. if c = B
                      then c\<lparr>linkPrecedence := ''secondary'', linkedId := Some (id' A),
                             updatedAt := now\<rparr>
                      else c) db)"
proof -
  let ?rq = "\<lparr>req_email = Some eA, req_phoneNumber = Some pB\<rparr>"
  define ps where "ps = primaries_of (matching_contacts ?rq db)"
  define f where "f = (\<lambda>c. if c = B then demote now (id' A) c else c)"
  have AB: "A \<noteq> B" using older by auto
  have dist: "distinct db" using ids by (simp add: distinct_map)
  have sps: "set ps = {A, B}"
    using A B given only by (auto simp: ps_def primaries_of_def matching_set)
  have dps: "distinct ps" using dist by (simp add: ps_def primaries_of_def matching_distinct)
  have "ps = [A, B] \<or> ps = [B, A]" using dps sps AB by (rule distinct_pair)
  then have len: "length ps > 1" and srt: "sort_key createdAt ps = [A, B]"
    using older by auto
  have sub: "set ps \<subseteq> set db" unfolding ps_def by (rule primaries_subset)
  have db1: "consolidate now ps db = map f db"
    using consolidate_by_rows [OF ids sub len, of now] srt by (simp add: f_def)
  have mne: "matching_contacts ?rq db \<noteq> []" using len by (auto simp: ps_def primaries_of_def)
  have res: "resolve_primary depth (matching_contacts ?rq db) (map f db) = Inr (Some A)"
    using len srt by (auto simp: resolve_primary_def ps_def [symmetric] sorted_primaries_def)
  have fid: "\<And>c. id' (f c) = id' c" by (simp add: f_def demote_def)
  have qA: "query_by_id (map f db) (Some (id' A)) = Some A"
    using query_by_id_map [of f db "Some (id' A)", OF fid] query_by_id_row [OF ids A(1)] AB
    by (simp add: f_def)
  have "filter (\<lambda>c. linkedId c = Some (id' A) \<and> linkPrecedence c = ''secondary'') (map f db)
        = map f (filter (\<lambda>c. c = B) db)"
    unfolding filter_map comp_def
    by (rule arg_cong [where f = "map f"], rule filter_cong [OF refl])
       (use indep B(2) in \<open>auto simp: f_def demote_def\<close>)
  also have "\<dots> = [demote now (id' A) B]" using filter_eq_single [OF dist B(1)] by (simp add: f_def)
  finally have graph: "get_all_linked_contacts (map f db) (id' A) = [A, demote now (id' A) B]"
    using qA A(2) by (simp add: get_all_linked_contacts_def)
  have nov: "\<not> needs_secondary ?rq [A, demote now (id' A) B]"
    using A B given by (simp add: needs_secondary_def truthy_values_def demote_def)
  have resp: "build_response (id' A) [A, demote now (id' A) B] =
      \<lparr>primaryContactId = id' A, emails = {eA, eB}, phoneNumbers = {pA, pB},
       secondaryContactIds = [id' B]\<rparr>"
    using A B given by (simp add: build_response_def truthy_values_def demote_def)
  have "identify depth ?rq now db = (Inr (build_response (id' A) [A, demote now (id' A) B]), map f db)"
    using given mne res graph nov db1
    by (simp add: identify_def Let_def ps_def [symmetric])
  then have "identify depth ?rq now db =
      (Inr \<lparr>primaryContactId = id' A, emails = {eA, eB}, phoneNumbers = {pA, pB},
            secondaryContactIds = [id' B]\<rparr>, map f db)"
    by (simp only: resp)
  then show ?thesis by (simp add: f_def demote_def)
qed

theorem identify_merge_tie_break_witness:
  "identify 900 \<lparr>req_email = Some ''a'', req_phoneNumber = Some ''2''\<rparr> 9
     [contact_row 2 (Some ''b'') (Some ''2'') None ''primary'' 5,
      contact_row 1 (Some ''a'') (Some ''1'') None ''primary'' 4,
      contact_row 3 (Some ''c'') (Some ''3'') None ''primary'' 6] =
   (Inr \<lparr>primaryContactId = 1, emails = {''a'', ''b''}, phoneNumbers = {''1'', ''2''},
         secondaryContactIds = [2]\<rparr>,
    [(contact_row 2 (Some ''b'') (Some ''2'') (Some 1) ''secondary'' 5)\<lparr>updatedAt := 9\<rparr>,
     contact_row 1 (Some ''a'') (Some ''1'') None ''primary'' 4,
     contact_row 3 (Some ''c'') (Some ''3'') None ''primary'' 6])"
  using identify_merge_tie_break [where
      db = "[contact_row 2 (Some ''b'') (Some ''2'') None ''primary'' 5,
             contact_row 1 (Some ''a'') (Some ''1'') None ''primary'' 4,
             contact_row 3 (Some ''c'') (Some ''3'') None ''primary'' 6]"
      and A = "contact_row 1 (Some ''a'') (Some ''1'') None ''primary'' 4"
      and B = "contact_row 2 (Some ''b'') (Some ''2'') None ''primary'' 5"
      and eA = "''a''" and pA = "''1''" and eB = "''b''" and pB = "''2''" and now = 9
      and depth = 900]
  by (simp add: contact_row_def)

section \<open>Following the links to the primary\<close>

lemma query_by_id_mem: "query_by_id db i = Some c \<Longrightarrow> c \<in> set db \<and> i = Some (id' c)"
  by (cases i) (auto simp: find_Some_iff)

lemma ultimate_primary_row:
  "ultimate_primary db i n p \<Longrightarrow> p \<in> set db \<and> linkPrecedence p = ''primary''"
  by (induction rule: ultimate_primary.induct) simp_all

lemma ultimate_primary_found:
  assumes ids: "distinct (map id' db)"
  shows "ultimate_primary db i n p \<Longrightarrow> n < depth \<Longrightarrow>
         find_primary_contact depth db i = Inr (Some p)"
proof (induction arbitrary: depth rule: ultimate_primary.induct)
  case (here c)
  then obtain d where d: "depth = Suc d" by (cases depth) auto
  show ?case unfolding d using here query_by_id_row [OF ids here(1)] by simp
next
  case (hop c n p)
  then obtain d where d: "depth = Suc d" and nd: "n < d" by (cases depth) auto
  have "find_primary_contact d db (linkedId c) = Inr (Some p)" using nd by (rule hop.IH)
  then show ?case unfolding d using hop(2) query_by_id_row [OF ids hop(1)] by simp
qed

lemma ultimate_primary_too_deep:
  assumes ids: "distinct (map id' db)"
  shows "ultimate_primary db i n p \<Longrightarrow> depth \<le> n \<Longrightarrow>
         find_primary_contact depth db i = Inl RecursionError"
proof (induction arbitrary: depth rule: ultimate_primary.induct)
  case (here c)
  then show ?case by simp
next
  case (hop c n p)
  show ?case
  proof (cases depth)
    case 0
    then show ?thesis by simp
  next
    case (Suc d)
    with hop.prems have "d \<le> n" by simp
    then have "find_primary_contact d db (linkedId c) = Inl RecursionError" by (rule hop.IH)
    then show ?thesis unfolding Suc using hop(2) query_by_id_row [OF ids hop(1)] by simp
  qed
qed


lemma find_filter_hd: "find P xs = (case filter P xs of [] \<Rightarrow> None | x # ys \<Rightarrow> Some x)"
  by (induction xs) simp_all

lemma first_match_hd:
  "first_match request db =
     (case matching_contacts request db of [] \<Rightarrow> None | c # cs \<Rightarrow> Some c)"
proof (cases "filter (\<lambda>c. truthy (req_email request) \<and> email c = req_email request) db")
  case Nil
  then have "\<forall>c\<in>set db. \<not> (truthy (req_email request) \<and> email c = req_email request)"
    by (simp add: filter_empty_conv)
  then have "filter (\<lambda>c. (truthy (req_phoneNumber request) \<and> phoneNumber c = req_phoneNumber request) \<and>
                 \<not> (truthy (req_email request) \<and> email c = req_email request)) db =
             filter (\<lambda>c. truthy (req_phoneNumber request) \<and> phoneNumber c = req_phoneNumber request) db"
    by (intro filter_cong) auto
  with Nil show ?thesis
    by (simp add: first_match_def matching_contacts_def find_filter_hd)
next
  case (Cons x xs)
  then show ?thesis by (simp add: first_match_def matching_contacts_def find_filter_hd)
qed

lemma first_match_Some:
  assumes "first_match request db = Some f"
  shows "matching_contacts request db \<noteq> []" "hd (matching_contacts request db) = f"
    "truthy (req_email request) \<or> truthy (req_phoneNumber request)" "f \<in> set db"
proof -
  show ne: "matching_contacts request db \<noteq> []" and hd: "hd (matching_contacts request db) = f"
    using assms by (auto simp: first_match_hd split: list.splits)
  have "f \<in> set (matching_contacts request db)" using ne hd hd_in_set by blast
  then show "truthy (req_email request) \<or> truthy (req_phoneNumber request)" and "f \<in> set db"
    by (auto simp: matching_set)
qed

lemma consolidate_few: "length ps \<le> 1 \<Longrightarrow> consolidate now ps db = db"
  by (simp add: consolidate_def)

lemma build_response_primary [simp]: "primaryContactId (build_response i cs) = i"
  by (simp add: build_response_def)

lemma identify_chain:
  assumes ids: "distinct (map id' db)"
    and first: "first_match request db = Some f"
    and nopr: "primaries_of (matching_contacts request db) = []"
    and chain: "ultimate_primary db (linkedId f) n p"
  shows "n < depth \<Longrightarrow>
           \<exists>v db'. identify depth request now db = (Inr v, db') \<and> primaryContactId v = id' p"
    and "depth \<le> n \<Longrightarrow> identify depth request now db = (Inl RecursionError, db)"
proof -
  define m where "m = matching_contacts request db"
  have some: "m \<noteq> []" and hd: "hd m = f"
    and valid: "truthy (req_email request) \<or> truthy (req_phoneNumber request)"
    unfolding m_def using first by (rule first_match_Some)+
  have res: "resolve_primary depth m db = find_primary_contact depth db (linkedId f)"
    using nopr hd by (simp add: resolve_primary_def m_def)
  have db1: "consolidate now (primaries_of m) db = db"
    using nopr by (simp add: consolidate_few m_def)
  show "\<exists>v db'. identify depth request now db = (Inr v, db') \<and> primaryContactId v = id' p"
    if "n < depth"
  proof -
    have "resolve_primary depth m db = Inr (Some p)"
      using ultimate_primary_found [OF ids chain that] res by simp
    then show ?thesis
      using valid some db1 by (auto simp: identify_def Let_def m_def [symmetric])
  qed
  show "identify depth request now db = (Inl RecursionError, db)" if "depth \<le> n"
  proof -
    have "resolve_primary depth m db = Inl RecursionError"
      using ultimate_primary_too_deep [OF ids chain that] res by simp
    then show ?thesis
      using valid some db1 by (auto simp: identify_def Let_def m_def [symmetric])
  qed
qed

text \<open>
  C8 (as the code has it). The store has unique ids, every matched row is secondary (none
  is primary), and the chain of \<open>linkedId\<close> links from the first row that the query returns
  leads, over \<open>n\<close> rows that are not primary, to a primary row \<open>p\<close>. When the interpreter
  allows more than \<open>n\<close> nested calls, the call succeeds and returns the id of \<open>p\<close> as
  \<open>primaryContactId\<close>, however many hops the chain has. When it does not, the walk raises
  \<open>RecursionError\<close> and the store is left as it was.
\<close>

theorem identify_follows_chain:
  assumes ids: "distinct (map id' db)"
    and first: "first_match request db = Some f"
    and nopr: "primaries_of (matching_contacts request db) = []"
    and chain: "ultimate_primary db (linkedId f) n p"
  shows "linkPrecedence p = ''primary'' \<and> p \<in> set db \<and>
         (n < depth \<longrightarrow>
            (\<exists>v db'. identify depth request now db = (Inr v, db') \<and> primaryContactId v = id' p)) \<and>
         (depth \<le> n \<longrightarrow> identify depth request now db = (Inl RecursionError, db))"
  using identify_chain [OF ids first nopr chain] ultimate_primary_row [OF chain] by blast

text \<open>
  The instance below is a store that four calls of \<open>identify\<close> build from the empty store. Rows 3
  and 4 match the request; the query returns row 4 first, as it has the email, and the
  chain from row 4 ends at primary 2.
\<close>

theorem identify_follows_chain_witness:
  "\<exists>v db'. identify 900 \<lparr>req_email = Some ''d'', req_phoneNumber = Some ''3''\<rparr> 9
      [contact_row 1 (Some ''a'') (Some ''1'') None ''primary'' 1,
       contact_row 2 (Some ''b'') (Some ''2'') None ''primary'' 2,
       contact_row 3 (Some ''a'') (Some ''3'') (Some 1) ''secondary'' 3,
       contact_row 4 (Some ''d'') (Some ''2'') (Some 2) ''secondary'' 4] = (Inr v, db') \<and>
     primaryContactId v = 2"
proof -
  let ?p = "contact_row 2 (Some ''b'') (Some ''2'') None ''primary'' 2"
  let ?f = "contact_row 4 (Some ''d'') (Some ''2'') (Some 2) ''secondary'' 4"
  let ?db = "[contact_row 1 (Some ''a'') (Some ''1'') None ''primary'' 1, ?p,
       contact_row 3 (Some ''a'') (Some ''3'') (Some 1) ''secondary'' 3, ?f]"
  let ?rq = "\<lparr>req_email = Some ''d'', req_phoneNumber = Some ''3''\<rparr>"
  have h1: "distinct (map id' ?db)" by (simp add: contact_row_def)
  have h2: "first_match ?rq ?db = Some ?f" by (simp add: first_match_def contact_row_def)
  have h3: "primaries_of (matching_contacts ?rq ?db) = []"
    by (simp add: primaries_of_def matching_contacts_def contact_row_def)
  have "ultimate_primary ?db (Some (id' ?p)) 0 ?p"
    by (rule ultimate_primary.here) (simp_all add: contact_row_def)
  then have h4: "ultimate_primary ?db (linkedId ?f) 0 ?p" by (simp add: contact_row_def)
  from identify_follows_chain [OF h1 h2 h3 h4, of 900 9] show ?thesis
    by (simp add: contact_row_def)
qed

lemma chain_row_fields [simp]:
  "id' (chain_row k) = int k" "email (chain_row k) = Some (replicate k (CHR ''x''))"
  "phoneNumber (chain_row k) = None"
  "linkedId (chain_row k) = (if k \<le> 1 then None else Some (int k - 1))"
  "linkPrecedence (chain_row k) = (if k \<le> 1 then ''primary'' else ''secondary'')"
  by (simp_all add: chain_row_def contact_row_def)

lemma chain_store_ids: "distinct (map id' (chain_store n))"
  by (simp add: chain_store_def distinct_map comp_def inj_on_def)

lemma chain_store_mem: "1 \<le> k \<Longrightarrow> k \<le> n \<Longrightarrow> chain_row k \<in> set (chain_store n)"
  unfolding chain_store_def set_map set_upt by (rule imageI) simp

lemma chain_store_chain:
  "1 \<le> k \<Longrightarrow> k \<le> n \<Longrightarrow>
   ultimate_primary (chain_store n) (Some (int k)) (k - 1) (chain_row 1)"
proof (induction k)
  case 0
  then show ?case by simp
next
  case (Suc j)
  show ?case
  proof (cases "j = 0")
    case True
    have "ultimate_primary (chain_store n) (Some (id' (chain_row 1))) 0 (chain_row 1)"
      using Suc.prems True by (intro ultimate_primary.here chain_store_mem) simp_all
    with True show ?thesis by simp
  next
    case False
    then have j: "1 \<le> j" "j \<le> n" using Suc.prems by simp_all
    then have IH: "ultimate_primary (chain_store n) (Some (int j)) (j - 1) (chain_row 1)"
      by (rule Suc.IH)
    have "ultimate_primary (chain_store n) (Some (id' (chain_row (Suc j)))) (Suc (j - 1)) (chain_row 1)"
    proof (rule ultimate_primary.hop)
      show "chain_row (Suc j) \<in> set (chain_store n)" using Suc.prems by (simp add: chain_store_mem)
      show "linkPrecedence (chain_row (Suc j)) \<noteq> ''primary''" using False by simp
      show "ultimate_primary (chain_store n) (linkedId (chain_row (Suc j))) (j - 1) (chain_row 1)"
        using IH False by simp
    qed
    then show ?thesis using False by simp
  qed
qed

lemma chain_store_matching:
  assumes "1 \<le> n"
  shows "matching_contacts \<lparr>req_email = Some (replicate n (CHR ''x'')), req_phoneNumber = None\<rparr>
           (chain_store n) = [chain_row n]"
proof -
  have eq: "(replicate k (CHR ''x'') = replicate n (CHR ''x'')) = (k = n)" for k
    by (metis length_replicate)
  have "filter (\<lambda>k. k = n) [1..<Suc n] = [n]"
    using assms by (intro filter_eq_single) simp_all
  then have "filter (\<lambda>c. email c = Some (replicate n (CHR ''x''))) (chain_store n) = [chain_row n]"
    by (simp add: chain_store_def filter_map comp_def eq)
  then show ?thesis using assms by (simp add: matching_contacts_def)
qed

lemma chain_store_overflow:
  assumes "2 \<le> n"
  shows "identify (n - 2) \<lparr>req_email = Some (replicate n (CHR ''x'')), req_phoneNumber = None\<rparr>
           now (chain_store n) = (Inl RecursionError, chain_store n)"
proof -
  let ?rq = "\<lparr>req_email = Some (replicate n (CHR ''x'')), req_phoneNumber = None\<rparr>"
  have m: "matching_contacts ?rq (chain_store n) = [chain_row n]"
    using assms by (intro chain_store_matching) simp
  have first: "first_match ?rq (chain_store n) = Some (chain_row n)"
    by (simp add: first_match_hd m)
  have nopr: "primaries_of (matching_contacts ?rq (chain_store n)) = []"
    using assms by (simp add: m primaries_of_def)
  have "ultimate_primary (chain_store n) (Some (int (n - 1))) (n - 1 - 1) (chain_row 1)"
    using assms by (intro chain_store_chain) simp_all
  moreover have "n - 1 - 1 = n - 2" by simp
  moreover have "linkedId (chain_row n) = Some (int (n - 1))" using assms by (simp add: of_nat_diff)
  ultimately have chain:
    "ultimate_primary (chain_store n) (linkedId (chain_row n)) (n - 2) (chain_row 1)"
    by simp
  show ?thesis by (rule identify_chain(2) [OF chain_store_ids first nopr chain]) simp
qed

text \<open>
  C8 (as stated) fails on a long chain. The store holds the primary row 1 and the rows 2
  to 1002, each a secondary linked to the row before it: no cycle, and the chain from the
  matched row 1002 ends at the primary. The walk needs 1001 nested calls, more than the
  1000 frames that CPython allows by default to the whole stack, and the call ends in
  \<open>RecursionError\<close>.
\<close>

theorem identify_chain_too_long:
  "identify 1000 \<lparr>req_email = Some (replicate 1002 (CHR ''x'')), req_phoneNumber = None\<rparr> 0
     (chain_store 1002) = (Inl RecursionError, chain_store 1002)"
  using chain_store_overflow [of 1002 0] by simp

section \<open>Calls that merge nothing\<close>

lemma graph_of_primary:
  assumes "query_by_id db (Some i) = Some p" "linkPrecedence p = ''primary''"
  shows "get_all_linked_contacts db i =
         p # filter (\<lambda>c. linkedId c = Some i \<and> linkPrecedence c = ''secondary'') db"
  using assms by (simp add: get_all_linked_contacts_def)

lemma found_primary_row:
  "find_primary_contact depth db i = Inr (Some p) \<Longrightarrow>
     query_by_id db (Some (id' p)) = Some p \<and> linkPrecedence p = ''primary''"
proof (induction depth arbitrary: i)
  case 0
  then show ?case by simp
next
  case (Suc d)
  show ?case
  proof (cases "query_by_id db i")
    case None
    with Suc.prems show ?thesis by simp
  next
    case (Some c)
    then have i: "i = Some (id' c)" using query_by_id_mem by blast
    show ?thesis
    proof (cases "linkPrecedence c = ''primary''")
      case True
      with Some Suc.prems have "p = c" by simp
      with Some True show ?thesis unfolding i by simp
    next
      case False
      with Some Suc.prems have "find_primary_contact d db (linkedId c) = Inr (Some p)" by simp
      then show ?thesis by (rule Suc.IH)
    qed
  qed
qed

lemma identify_valid:
  "fst (identify depth request now db) = Inr v \<Longrightarrow>
     truthy (req_email request) \<or> truthy (req_phoneNumber request)"
  by (cases "truthy (req_email request) \<or> truthy (req_phoneNumber request)")
     (simp_all add: identify_def)



section \<open>The novelty check\<close>

lemma in_truthy_values:
  "x \<noteq> [] \<Longrightarrow> x \<in> set (truthy_values (map f cs)) \<longleftrightarrow> Some x \<in> f ` set cs"
proof -
  assume x: "x \<noteq> []"
  have "x \<in> set (truthy_values (map f cs)) \<longleftrightarrow> (\<exists>c\<in>set cs. truthy (f c) \<and> the (f c) = x)"
    by (auto simp: truthy_values_def)
  also have "\<dots> \<longleftrightarrow> (\<exists>c\<in>set cs. f c = Some x)"
    using x by (auto simp: truthy_def split: option.splits)
  also have "\<dots> \<longleftrightarrow> Some x \<in> f ` set cs" by force
  finally show ?thesis .
qed

lemma needs_secondary_iff:
  "needs_secondary request G \<longleftrightarrow>
     (truthy (req_email request) \<and> req_email request \<notin> email ` set G) \<or>
     (truthy (req_phoneNumber request) \<and> req_phoneNumber request \<notin> phoneNumber ` set G)"
proof -
  have e: "truthy (req_email request) \<Longrightarrow>
      the (req_email request) \<in> set (truthy_values (map email G)) \<longleftrightarrow>
      req_email request \<in> email ` set G"
    by (cases "req_email request") (simp_all add: in_truthy_values)
  have p: "truthy (req_phoneNumber request) \<Longrightarrow>
      the (req_phoneNumber request) \<in> set (truthy_values (map phoneNumber G)) \<longleftrightarrow>
      req_phoneNumber request \<in> phoneNumber ` set G"
    by (cases "req_phoneNumber request") (simp_all add: in_truthy_values)
  show ?thesis unfolding needs_secondary_def Let_def using e p by blast
qed

lemma consolidate_length [simp]: "length (consolidate now ps db) = length db"
  by (simp add: consolidate_def Let_def)

lemma identify_matched:
  assumes "truthy (req_email request) \<or> truthy (req_phoneNumber request)"
    and "matching_contacts request db \<noteq> []"
    and "resolve_primary depth (matching_contacts request db)
           (consolidate now (primaries_of (matching_contacts request db)) db) = Inr (Some pc)"
  shows "identify depth request now db =
     (let db1 = consolidate now (primaries_of (matching_contacts request db)) db;
          G = get_all_linked_contacts db1 (id' pc)
      in if needs_secondary request G
         then (Inr (build_response (id' pc) (G @ [new_secondary request now (id' pc) db1])),
               db1 @ [new_secondary request now (id' pc) db1])
         else (Inr (build_response (id' pc) G), db1))"
  using assms by (auto simp: identify_def Let_def)

lemma identify_Inr_resolved:
  assumes "matching_contacts request db \<noteq> []" "fst (identify depth request now db) = Inr v"
  shows "\<exists>pc. resolve_primary depth (matching_contacts request db)
           (consolidate now (primaries_of (matching_contacts request db)) db) = Inr (Some pc) \<and>
           primaryContactId v = id' pc"
  using assms identify_valid [OF assms(2)]
  by (auto simp: identify_def Let_def split: option.splits sum.splits if_splits)

text \<open>
  C4 (as the code has it). A call finds at least one matching row and returns a response.
  Let \<open>db1\<close> be the store after the merge step (lines 122-134): it has the rows of \<open>db\<close>, and
  it is \<open>db\<close> itself when at most one matched row is primary. Let \<open>G\<close> be the contacts linked
  to the working primary, whose id the response returns. A row is inserted exactly when the
  given email is truthy (neither absent nor empty) and the email of no row of \<open>G\<close>, or the
  given phone number is truthy and the phone number of no row of \<open>G\<close>. The inserted row is
  one secondary with the email and phone number of the request and \<open>linkedId\<close> the working
  primary's id, added after the rows of \<open>db1\<close>; otherwise the store is left as \<open>db1\<close>.
\<close>

theorem identify_novelty:
  assumes some: "matching_contacts request db \<noteq> []"
    and ok: "fst (identify depth request now db) = Inr v"
  shows "let db1 = consolidate now (primaries_of (matching_contacts request db)) db;
             G = get_all_linked_contacts db1 (primaryContactId v);
             novel = ((truthy (req_email request) \<and> req_email request \<notin> email ` set G) \<or>
                      (truthy (req_phoneNumber request) \<and>
                       req_phoneNumber request \<notin> phoneNumber ` set G))
         in snd (identify depth request now db) =
              (if novel
               then db1 @ [\<lparr>id' = next_id db1, phoneNumber = req_phoneNumber request,
                            email = req_email request, linkedId = Some (primaryContactId v),
                            linkPrecedence = ''secondary'', createdAt = now, updatedAt = now,
                            deletedAt = None\<rparr>]
               else db1) \<and>
            length db1 = length db \<and>
            (length (primaries_of (matching_contacts request db)) \<le> 1 \<longrightarrow> db1 = db)"
proof -
  obtain pc where res: "resolve_primary depth (matching_contacts request db)
           (consolidate now (primaries_of (matching_contacts request db)) db) = Inr (Some pc)"
    and pid: "primaryContactId v = id' pc"
    using identify_Inr_resolved [OF some ok] by blast
  show ?thesis
    unfolding identify_matched [OF identify_valid [OF ok] some res] pid
    by (simp add: Let_def needs_secondary_iff new_secondary_def consolidate_few)
qed

text \<open>
  C4 (as stated) fails in two places. An email that is not null but empty, and so not among
  the emails of the graph, creates no row (line 151 tests its truthiness). And a request
  that the merged graph covers creates no row, yet the store is not unchanged: the merge
  has demoted the younger primary.
\<close>

theorem identify_novelty_counterexample:
  "identify 900 \<lparr>req_email = Some [], req_phoneNumber = Some ''1''\<rparr> 9
     [contact_row 1 (Some ''a'') (Some ''1'') None ''primary'' 1] =
     (Inr \<lparr>primaryContactId = 1, emails = {''a''}, phoneNumbers = {''1''},
           secondaryContactIds = []\<rparr>,
      [contact_row 1 (Some ''a'') (Some ''1'') None ''primary'' 1]) \<and>
   identify 900 \<lparr>req_email = Some ''a'', req_phoneNumber = Some ''2''\<rparr> 9
     [contact_row 1 (Some ''a'') (Some ''1'') None ''primary'' 1,
      contact_row 2 (Some ''b'') (Some ''2'') None ''primary'' 2] =
     (Inr \<lparr>primaryContactId = 1, emails = {''a'', ''b''}, phoneNumbers = {''1'', ''2''},
           secondaryContactIds = [2]\<rparr>,
      [contact_row 1 (Some ''a'') (Some ''1'') None ''primary'' 1,
       (contact_row 2 (Some ''b'') (Some ''2'') (Some 1) ''secondary'' 2)\<lparr>updatedAt := 9\<rparr>])"
  by code_simp

text \<open>
  The instance below is a store that five calls of \<open>identify\<close> build from the empty store; the
  fifth was the request of this one. The query returns rows 4, 5 and 3; the working
  primary is 2, whose graph (rows 2, 4 and 5) covers the email and the phone number, and
  nothing is inserted.
\<close>

theorem identify_novelty_witness:
  "snd (identify 900 \<lparr>req_email = Some ''d'', req_phoneNumber = Some ''3''\<rparr> 9
     [contact_row 1 (Some ''a'') (Some ''1'') None ''primary'' 1,
      contact_row 2 (Some ''b'') (Some ''2'') None ''primary'' 2,
      contact_row 3 (Some ''a'') (Some ''3'') (Some 1) ''secondary'' 3,
      contact_row 4 (Some ''d'') (Some ''2'') (Some 2) ''secondary'' 4,
      contact_row 5 (Some ''d'') (Some ''3'') (Some 2) ''secondary'' 5]) =
     [contact_row 1 (Some ''a'') (Some ''1'') None ''primary'' 1,
      contact_row 2 (Some ''b'') (Some ''2'') None ''primary'' 2,
      contact_row 3 (Some ''a'') (Some ''3'') (Some 1) ''secondary'' 3,
      contact_row 4 (Some ''d'') (Some ''2'') (Some 2) ''secondary'' 4,
      contact_row 5 (Some ''d'') (Some ''3'') (Some 2) ''secondary'' 5]"
proof -
  let ?db = "[contact_row 1 (Some ''a'') (Some ''1'') None ''primary'' 1,
      contact_row 2 (Some ''b'') (Some ''2'') None ''primary'' 2,
      contact_row 3 (Some ''a'') (Some ''3'') (Some 1) ''secondary'' 3,
      contact_row 4 (Some ''d'') (Some ''2'') (Some 2) ''secondary'' 4,
      contact_row 5 (Some ''d'') (Some ''3'') (Some 2) ''secondary'' 5]"
  let ?rq = "\<lparr>req_email = Some ''d'', req_phoneNumber = Some ''3''\<rparr>"
  have some: "matching_contacts ?rq ?db \<noteq> []" by (simp add: matching_contacts_def contact_row_def)
  have ok: "fst (identify 900 ?rq 9 ?db) =
     Inr \<lparr>primaryContactId = 2, emails = {''b'', ''d''}, phoneNumbers = {''2'', ''3''},
          secondaryContactIds = [4, 5]\<rparr>" by code_simp
  have c: "consolidate 9 (primaries_of (matching_contacts ?rq ?db)) ?db = ?db" by code_simp
  have g: "get_all_linked_contacts ?db 2 =
     [contact_row 2 (Some ''b'') (Some ''2'') None ''primary'' 2,
      contact_row 4 (Some ''d'') (Some ''2'') (Some 2) ''secondary'' 4,
      contact_row 5 (Some ''d'') (Some ''3'') (Some 2) ''secondary'' 5]" by code_simp
  from identify_novelty [OF some ok] have
    "snd (identify 900 ?rq 9 ?db) =
       (if (truthy (req_email ?rq) \<and> req_email ?rq \<notin> email ` set (get_all_linked_contacts ?db 2)) \<or>
           (truthy (req_phoneNumber ?rq) \<and>
            req_phoneNumber ?rq \<notin> phoneNumber ` set (get_all_linked_contacts ?db 2))
        then ?db @ [\<lparr>id' = next_id ?db, phoneNumber = req_phoneNumber ?rq,
                      email = req_email ?rq, linkedId = Some 2,
                      linkPrecedence = ''secondary'', createdAt = 9, updatedAt = 9,
                      deletedAt = None\<rparr>]
        else ?db)"
    by (simp only: Let_def ContactResponse.select_convs c)
  then show ?thesis unfolding g by (simp add: contact_row_def)
qed

section \<open>Commits\<close>

lemma merge_graph:
  assumes ids: "distinct (map id' db)"
    and o_db: "oldest \<in> set db" and o_prim: "linkPrecedence oldest = ''primary''"
    and o_not: "oldest \<notin> set others"
  shows "get_all_linked_contacts
           (map (\<lambda>c. if c \<in> set others then demote now (id' oldest) c else c) db) (id' oldest) =
         oldest # filter (\<lambda>c. linkedId c = Some (id' oldest) \<and> linkPrecedence c = ''secondary'')
           (map (\<lambda>c. if c \<in> set others then demote now (id' oldest) c else c) db)"
proof -
  let ?f = "\<lambda>c. if c \<in> set others then demote now (id' oldest) c else c"
  have fid: "\<And>c. id' (?f c) = id' c" by simp
  have "query_by_id (map ?f db) (Some (id' oldest)) = map_option ?f (query_by_id db (Some (id' oldest)))"
    by (rule query_by_id_map) simp
  also have "\<dots> = Some oldest" using query_by_id_row [OF ids o_db] o_not by simp
  finally show ?thesis using o_prim by (rule graph_of_primary)
qed

lemma merge_covers:
  assumes ids: "distinct (map id' db)"
    and unshared: "primaries_unshared db"
    and many: "length (primaries_of (matching_contacts request db)) > 1"
    and res: "resolve_primary depth (matching_contacts request db)
       (consolidate now (primaries_of (matching_contacts request db)) db) = Inr (Some pc)"
  shows "\<not> needs_secondary request
           (get_all_linked_contacts
              (consolidate now (primaries_of (matching_contacts request db)) db) (id' pc))"
proof -
  let ?ps = "primaries_of (matching_contacts request db)"
  obtain oldest others where
    srt: "sort_key createdAt ?ps = oldest # others"
    and o_db: "oldest \<in> set db" and o_prim: "linkPrecedence oldest = ''primary''"
    and o_not: "oldest \<notin> set others" and oth: "set others \<subseteq> set db"
    and sps: "set ?ps = insert oldest (set others)"
    and db1: "consolidate now ?ps db =
       map (\<lambda>c. if c \<in> set others then demote now (id' oldest) c else c) db"
    and res': "resolve_primary depth (matching_contacts request db) (consolidate now ?ps db) =
       Inr (Some oldest)"
    by (rule merge_shape [OF ids many, of now depth])
  define ps where "ps = ?ps"
  note srt = srt [folded ps_def] and sps = sps [folded ps_def] and db1 = db1 [folded ps_def]
    and res' = res' [folded ps_def]
  let ?f = "\<lambda>c. if c \<in> set others then demote now (id' oldest) c else c"
  define G where "G = get_all_linked_contacts (map ?f db) (id' oldest)"
  have pc: "pc = oldest" using res res' by (simp add: ps_def)
  have G: "G = oldest # filter (\<lambda>c. linkedId c = Some (id' oldest) \<and> linkPrecedence c = ''secondary'')
             (map ?f db)"
    unfolding G_def using ids o_db o_prim o_not by (rule merge_graph)
  have cover: "email c \<in> email ` set G \<and> phoneNumber c \<in> phoneNumber ` set G" if "c \<in> set ps" for c
  proof (cases "c = oldest")
    case True
    then show ?thesis by (simp add: G)
  next
    case False
    with that sps have c: "c \<in> set others" by simp
    with oth have "c \<in> set db" by auto
    then have "?f c \<in> ?f ` set db" by (rule imageI)
    then have "?f c \<in> set (map ?f db)" by (simp only: set_map)
    with c have "demote now (id' oldest) c \<in> set G" by (simp add: G)
    then have "email (demote now (id' oldest) c) \<in> email ` set G"
      and "phoneNumber (demote now (id' oldest) c) \<in> phoneNumber ` set G"
      by (rule imageI)+
    then show ?thesis by simp
  qed
  have "length (sort_key createdAt ps) > 1" using many by (simp add: ps_def)
  with srt obtain x xs where others: "others = x # xs" by (cases others) auto
  have x_ps: "x \<in> set ps" and o_ps: "oldest \<in> set ps" and xo: "oldest \<noteq> x"
    using sps others o_not by auto
  have x_db: "x \<in> set db" and x_prim: "linkPrecedence x = ''primary''"
    using x_ps primaries_subset [of request db] by (auto simp: ps_def primaries_of_def)
  have matched: "(truthy (req_email request) \<and> email c = req_email request) \<or>
      (truthy (req_phoneNumber request) \<and> phoneNumber c = req_phoneNumber request)"
    if "c \<in> set ps" for c
    using that by (auto simp: ps_def primaries_of_def matching_set)
  have u: "\<not> (truthy (email oldest) \<and> email oldest = email x) \<and>
           \<not> (truthy (phoneNumber oldest) \<and> phoneNumber oldest = phoneNumber x)"
    using unshared o_db x_db o_prim x_prim xo unfolding primaries_unshared_def by blast
  have not_both_email: "\<not> (email oldest = req_email request \<and> email x = req_email request)"
    if "truthy (req_email request)"
    using u that by auto
  have not_both_phone:
    "\<not> (phoneNumber oldest = req_phoneNumber request \<and> phoneNumber x = req_phoneNumber request)"
    if "truthy (req_phoneNumber request)"
    using u that by auto
  have e: "req_email request \<in> email ` set G" if t: "truthy (req_email request)"
  proof -
    have "email oldest = req_email request \<or> email x = req_email request"
      using matched [OF o_ps] matched [OF x_ps] not_both_phone by blast
    then show ?thesis using cover [OF o_ps] cover [OF x_ps] by auto
  qed
  have p: "req_phoneNumber request \<in> phoneNumber ` set G" if t: "truthy (req_phoneNumber request)"
  proof -
    have "phoneNumber oldest = req_phoneNumber request \<or> phoneNumber x = req_phoneNumber request"
      using matched [OF o_ps] matched [OF x_ps] not_both_email by blast
    then show ?thesis using cover [OF o_ps] cover [OF x_ps] by auto
  qed
  have "\<not> needs_secondary request G" using e p by (auto simp: needs_secondary_iff)
  then show ?thesis unfolding G_def pc ps_def [symmetric] db1 .
qed

lemma identify_commits_cases:
  "identify_commits depth request now db =
     (if \<not> truthy (req_email request) \<and> \<not> truthy (req_phoneNumber request) then []
      else if matching_contacts request db = [] then [snd (identify depth request now db)]
      else (if length (primaries_of (matching_contacts request db)) > 1
            then [consolidate now (primaries_of (matching_contacts request db)) db] else []) @
           (if length (snd (identify depth request now db)) = length db + 1
            then [snd (identify depth request now db)] else []))"
  by (simp add: identify_def identify_commits_def Let_def split: option.splits sum.splits)

text \<open>
  C7 (as the code has it). One call commits at most twice, and the last commit is the store
  the call leaves. Two commits happen only in a merge that also inserts: the first (line
  134) holds all the demotions and nothing else, the second (line 161) adds the new
  secondary. On a store with unique ids in which no two primaries share an email or a
  phone number, a merge never inserts, so every call commits all its effects at once, or
  nothing.
\<close>

theorem identify_commits_bound:
  "length (identify_commits depth request now db) \<le> 2 \<and>
   last (db # identify_commits depth request now db) = snd (identify depth request now db) \<and>
   (length (identify_commits depth request now db) = 2 \<longrightarrow>
      length (primaries_of (matching_contacts request db)) > 1 \<and>
      identify_commits depth request now db =
        [consolidate now (primaries_of (matching_contacts request db)) db,
         snd (identify depth request now db)] \<and>
      length (snd (identify depth request now db)) = length db + 1) \<and>
   (distinct (map id' db) \<and> primaries_unshared db \<longrightarrow>
      length (identify_commits depth request now db) \<le> 1)"
proof (intro conjI impI)
  show "length (identify_commits depth request now db) \<le> 2"
    by (simp add: identify_commits_cases)
  show "last (db # identify_commits depth request now db) = snd (identify depth request now db)"
    by (auto simp: identify_def identify_commits_def Let_def consolidate_few
        split: option.splits sum.splits)
  show "length (primaries_of (matching_contacts request db)) > 1"
    if "length (identify_commits depth request now db) = 2"
    using that by (auto simp: identify_commits_cases split: if_splits)
  show "identify_commits depth request now db =
        [consolidate now (primaries_of (matching_contacts request db)) db,
         snd (identify depth request now db)]"
    if "length (identify_commits depth request now db) = 2"
    using that by (auto simp: identify_commits_cases split: if_splits)
  show "length (snd (identify depth request now db)) = length db + 1"
    if "length (identify_commits depth request now db) = 2"
    using that by (auto simp: identify_commits_cases split: if_splits)
  show "length (identify_commits depth request now db) \<le> 1"
    if h: "distinct (map id' db) \<and> primaries_unshared db"
  proof (cases "length (primaries_of (matching_contacts request db)) > 1")
    case False
    then show ?thesis by (simp add: identify_commits_cases)
  next
    case True
    obtain oldest where
      res: "resolve_primary depth (matching_contacts request db)
         (consolidate now (primaries_of (matching_contacts request db)) db) = Inr (Some oldest)"
      by (rule merge_shape [OF conjunct1 [OF h] True, of now depth])
    have "\<not> needs_secondary request
           (get_all_linked_contacts
              (consolidate now (primaries_of (matching_contacts request db)) db) (id' oldest))"
      using h True res by (intro merge_covers) auto
    with res show ?thesis by (simp add: identify_commits_def Let_def)
  qed
qed

text \<open>
  C7 (as stated) fails: two primaries carry the same phone number, and a request with that
  number and a new email first commits the demotion of the younger one, and then, in a
  second commit, the new secondary. The store between the two commits has the demotion
  without the insert.
\<close>

theorem identify_two_commits:
  "identify_commits 900 \<lparr>req_email = Some ''z'', req_phoneNumber = Some ''1''\<rparr> 9
     [contact_row 1 (Some ''a'') (Some ''1'') None ''primary'' 1,
      contact_row 2 (Some ''b'') (Some ''1'') None ''primary'' 2] =
     [[contact_row 1 (Some ''a'') (Some ''1'') None ''primary'' 1,
       (contact_row 2 (Some ''b'') (Some ''1'') (Some 1) ''secondary'' 2)\<lparr>updatedAt := 9\<rparr>],
      [contact_row 1 (Some ''a'') (Some ''1'') None ''primary'' 1,
       (contact_row 2 (Some ''b'') (Some ''1'') (Some 1) ''secondary'' 2)\<lparr>updatedAt := 9\<rparr>,
       contact_row 3 (Some ''z'') (Some ''1'') (Some 1) ''secondary'' 9]]"
  by code_simp

theorem identify_commits_bound_witness:
  "distinct (map id' [contact_row 1 (Some ''a'') (Some ''1'') None ''primary'' 1,
                      contact_row 2 (Some ''b'') (Some ''2'') None ''primary'' 2]) \<and>
   primaries_unshared [contact_row 1 (Some ''a'') (Some ''1'') None ''primary'' 1,
                       contact_row 2 (Some ''b'') (Some ''2'') None ''primary'' 2] \<and>
   length (identify_commits 900 \<lparr>req_email = Some ''a'', req_phoneNumber = Some ''2''\<rparr> 9
     [contact_row 1 (Some ''a'') (Some ''1'') None ''primary'' 1,
      contact_row 2 (Some ''b'') (Some ''2'') None ''primary'' 2]) \<le> 1"
proof -
  let ?db = "[contact_row 1 (Some ''a'') (Some ''1'') None ''primary'' 1,
      contact_row 2 (Some ''b'') (Some ''2'') None ''primary'' 2]"
  have h1: "distinct (map id' ?db)" by (simp add: contact_row_def)
  have h2: "primaries_unshared ?db" by (simp add: primaries_unshared_def contact_row_def)
  from identify_commits_bound [of 900 "\<lparr>req_email = Some ''a'', req_phoneNumber = Some ''2''\<rparr>" 9 ?db]
    h1 h2 show ?thesis by blast
qed

section \<open>Repeating a request\<close>

lemma new_secondary_fields [simp]:
  "id' (new_secondary request now i d) = next_id d"
  "email (new_secondary request now i d) = req_email request"
  "phoneNumber (new_secondary request now i d) = req_phoneNumber request"
  "linkedId (new_secondary request now i d) = Some i"
  "linkPrecedence (new_secondary request now i d) = ''secondary''"
  by (simp_all add: new_secondary_def)

lemma new_contact_fields [simp]:
  "id' (new_contact request now d) = next_id d"
  "email (new_contact request now d) = req_email request"
  "phoneNumber (new_contact request now d) = req_phoneNumber request"
  "linkedId (new_contact request now d) = None"
  "linkPrecedence (new_contact request now d) = ''primary''"
  by (simp_all add: new_contact_def)

lemma query_by_id_append:
  assumes "query_by_id d i = Some c"
  shows "query_by_id (d @ [s]) i = Some c"
proof (cases i)
  case None
  with assms show ?thesis by simp
next
  case (Some j)
  have "find P d = Some c \<Longrightarrow> find P (d @ [s]) = Some c" for P
    by (induction d) (auto split: if_splits)
  then show ?thesis using Some assms by simp
qed

lemma find_append_fresh:
  "\<forall>x\<in>set d. \<not> P x \<Longrightarrow> P s \<Longrightarrow> find P (d @ [s]) = Some s"
  by (induction d) simp_all

lemma find_primary_contact_append:
  "find_primary_contact depth d i = Inr (Some pc) \<Longrightarrow>
   find_primary_contact depth (d @ [s]) i = Inr (Some pc)"
proof (induction depth arbitrary: i)
  case 0
  then show ?case by simp
next
  case (Suc k)
  show ?case
  proof (cases "query_by_id d i")
    case None
    with Suc.prems show ?thesis by simp
  next
    case (Some c)
    then have q: "query_by_id (d @ [s]) i = Some c" by (rule query_by_id_append)
    show ?thesis
    proof (cases "linkPrecedence c = ''primary''")
      case True
      with Some q Suc.prems show ?thesis by simp
    next
      case False
      with Some Suc.prems have "find_primary_contact k d (linkedId c) = Inr (Some pc)" by simp
      then have "find_primary_contact k (d @ [s]) (linkedId c) = Inr (Some pc)" by (rule Suc.IH)
      with q False show ?thesis by simp
    qed
  qed
qed

lemma matching_append_hd:
  assumes "matching_contacts request d \<noteq> []" "linkPrecedence s \<noteq> ''primary''"
  shows "matching_contacts request (d @ [s]) \<noteq> []"
    and "primaries_of (matching_contacts request (d @ [s])) = primaries_of (matching_contacts request d)"
    and "hd (matching_contacts request (d @ [s])) = hd (matching_contacts request d) \<or>
         hd (matching_contacts request (d @ [s])) = s"
proof -
  show "matching_contacts request (d @ [s]) \<noteq> []"
    using assms(1) by (auto simp: matching_contacts_def)
  show "primaries_of (matching_contacts request (d @ [s])) = primaries_of (matching_contacts request d)"
    using assms(2) by (simp add: matching_contacts_def primaries_of_def)
  show "hd (matching_contacts request (d @ [s])) = hd (matching_contacts request d) \<or>
        hd (matching_contacts request (d @ [s])) = s"
  proof (cases "filter (\<lambda>c. truthy (req_email request) \<and> email c = req_email request) d")
    case (Cons x xs)
    then show ?thesis by (simp add: matching_contacts_def)
  next
    case Nil
    with assms(1) have "filter (\<lambda>c. (truthy (req_phoneNumber request) \<and>
            phoneNumber c = req_phoneNumber request) \<and>
            \<not> (truthy (req_email request) \<and> email c = req_email request)) d \<noteq> []"
      by (simp add: matching_contacts_def)
    with Nil show ?thesis by (simp add: matching_contacts_def hd_append)
  qed
qed

lemma identify_matched_err:
  assumes "truthy (req_email request) \<or> truthy (req_phoneNumber request)"
    and "matching_contacts request db \<noteq> []"
    and "primaries_of (matching_contacts request db) = []"
  shows "identify depth request now db =
     (case find_primary_contact depth db (linkedId (hd (matching_contacts request db))) of
        Inl e \<Rightarrow> (Inl e, db)
      | Inr None \<Rightarrow> (Inl AttributeError, db)
      | Inr (Some pc) \<Rightarrow>
          if needs_secondary request (get_all_linked_contacts db (id' pc))
          then (Inr (build_response (id' pc)
                  (get_all_linked_contacts db (id' pc) @ [new_secondary request now (id' pc) db])),
                db @ [new_secondary request now (id' pc) db])
          else (Inr (build_response (id' pc) (get_all_linked_contacts db (id' pc))), db))"
  using assms
  by (auto simp: identify_def Let_def resolve_primary_def consolidate_few
      split: sum.splits option.splits)

lemma identify_settled:
  assumes valid: "truthy (req_email request) \<or> truthy (req_phoneNumber request)"
    and some: "matching_contacts request d \<noteq> []"
    and few: "length (primaries_of (matching_contacts request d)) \<le> 1"
    and res: "resolve_primary depth (matching_contacts request d) d = Inr (Some pc)"
    and covered: "\<not> needs_secondary request (get_all_linked_contacts d (id' pc))"
  shows "identify depth request now d =
         (Inr (build_response (id' pc) (get_all_linked_contacts d (id' pc))), d)"
proof -
  have c: "consolidate now (primaries_of (matching_contacts request d)) d = d"
    using few by (rule consolidate_few)
  show ?thesis
    using identify_matched [OF valid some, of depth now pc] res covered by (simp add: c Let_def)
qed

lemma identify_after_insert:
  assumes valid: "truthy (req_email request) \<or> truthy (req_phoneNumber request)"
    and some: "matching_contacts request d \<noteq> []"
    and few: "length (primaries_of (matching_contacts request d)) \<le> 1"
    and res: "resolve_primary depth (matching_contacts request d) d = Inr (Some pc)"
    and row: "query_by_id d (Some (id' pc)) = Some pc"
    and prim: "linkPrecedence pc = ''primary''"
  shows "identify depth request now' (d @ [new_secondary request now (id' pc) d]) =
         (Inr (build_response (id' pc)
                 (get_all_linked_contacts d (id' pc) @ [new_secondary request now (id' pc) d])),
          d @ [new_secondary request now (id' pc) d])"
proof -
  define s where "s = new_secondary request now (id' pc) d"
  define m where "m = matching_contacts request d"
  define m' where "m' = matching_contacts request (d @ [s])"
  have sec: "linkPrecedence s \<noteq> ''primary''" by (simp add: s_def)
  have m'_ne: "m' \<noteq> []" and p': "primaries_of m' = primaries_of m"
    and hd': "hd m' = hd m \<or> hd m' = s"
    unfolding m'_def m_def using some sec by (rule matching_append_hd)+
  have q: "query_by_id (d @ [s]) (Some (id' pc)) = Some pc" using row by (rule query_by_id_append)
  have res': "resolve_primary depth m' (d @ [s]) = Inr (Some pc)"
  proof (cases "primaries_of m = []")
    case False
    with res [folded m_def] show ?thesis by (simp add: resolve_primary_def p')
  next
    case True
    with res [folded m_def] have walk: "find_primary_contact depth d (linkedId (hd m)) = Inr (Some pc)"
      by (simp add: resolve_primary_def)
    from hd' have "find_primary_contact depth (d @ [s]) (linkedId (hd m')) = Inr (Some pc)"
    proof
      assume "hd m' = hd m"
      with walk show ?thesis by (simp add: find_primary_contact_append)
    next
      assume h: "hd m' = s"
      from walk obtain k where k: "depth = Suc k" by (cases depth) auto
      show ?thesis unfolding h k using q prim by (simp add: s_def)
    qed
    with True show ?thesis by (simp add: resolve_primary_def p')
  qed
  have g: "get_all_linked_contacts d (id' pc) =
           pc # filter (\<lambda>c. linkedId c = Some (id' pc) \<and> linkPrecedence c = ''secondary'') d"
    using row prim by (rule graph_of_primary)
  have "get_all_linked_contacts (d @ [s]) (id' pc) =
           pc # filter (\<lambda>c. linkedId c = Some (id' pc) \<and> linkPrecedence c = ''secondary'') (d @ [s])"
    using q prim by (rule graph_of_primary)
  then have g': "get_all_linked_contacts (d @ [s]) (id' pc) = get_all_linked_contacts d (id' pc) @ [s]"
    by (simp add: g s_def)
  have cov: "\<not> needs_secondary request (get_all_linked_contacts (d @ [s]) (id' pc))"
    unfolding g' needs_secondary_iff by (simp add: s_def)
  have "identify depth request now' (d @ [s]) =
        (Inr (build_response (id' pc) (get_all_linked_contacts (d @ [s]) (id' pc))), d @ [s])"
  proof (rule identify_settled [OF valid])
    show "matching_contacts request (d @ [s]) \<noteq> []" using m'_ne by (simp add: m'_def)
    show "length (primaries_of (matching_contacts request (d @ [s]))) \<le> 1"
      using few p' by (simp add: m'_def m_def)
    show "resolve_primary depth (matching_contacts request (d @ [s])) (d @ [s]) = Inr (Some pc)"
      using res' by (simp add: m'_def)
    show "\<not> needs_secondary request (get_all_linked_contacts (d @ [s]) (id' pc))" by (rule cov)
  qed
  then have "identify depth request now' (d @ [s]) =
        (Inr (build_response (id' pc) (get_all_linked_contacts d (id' pc) @ [s])), d @ [s])"
    by (simp only: g')
  then show ?thesis unfolding s_def .
qed

lemma idem_success:
  assumes valid: "truthy (req_email request) \<or> truthy (req_phoneNumber request)"
    and first: "identify depth request now db =
       (if needs_secondary request (get_all_linked_contacts d (id' pc))
        then (Inr (build_response (id' pc)
                (get_all_linked_contacts d (id' pc) @ [new_secondary request now (id' pc) d])),
              d @ [new_secondary request now (id' pc) d])
        else (Inr (build_response (id' pc) (get_all_linked_contacts d (id' pc))), d))"
    and some: "matching_contacts request d \<noteq> []"
    and few: "length (primaries_of (matching_contacts request d)) \<le> 1"
    and res: "resolve_primary depth (matching_contacts request d) d = Inr (Some pc)"
    and row: "query_by_id d (Some (id' pc)) = Some pc"
    and prim: "linkPrecedence pc = ''primary''"
  shows "identify depth request now' (snd (identify depth request now db)) =
         identify depth request now db"
proof (cases "needs_secondary request (get_all_linked_contacts d (id' pc))")
  case True
  then show ?thesis
    unfolding first using identify_after_insert [OF valid some few res row prim, of now' now]
    by simp
next
  case False
  then show ?thesis
    unfolding first using identify_settled [OF valid some few res False, of now'] by simp
qed

lemma matching_map:
  assumes "\<And>c. email (f c) = email c" "\<And>c. phoneNumber (f c) = phoneNumber c"
  shows "matching_contacts request (map f db) = map f (matching_contacts request db)"
  by (simp add: matching_contacts_def filter_map comp_def assms)

lemma idem_merge:
  assumes ids: "distinct (map id' db)"
    and valid: "truthy (req_email request) \<or> truthy (req_phoneNumber request)"
    and many: "length (primaries_of (matching_contacts request db)) > 1"
  shows "identify depth request now' (snd (identify depth request now db)) =
         identify depth request now db"
proof -
  let ?m = "matching_contacts request db"
  let ?ps = "primaries_of ?m"
  obtain oldest others where
    o_db: "oldest \<in> set db" and o_prim: "linkPrecedence oldest = ''primary''"
    and o_not: "oldest \<notin> set others"
    and sps: "set ?ps = insert oldest (set others)"
    and db1: "consolidate now ?ps db =
       map (\<lambda>c. if c \<in> set others then demote now (id' oldest) c else c) db"
    and res: "resolve_primary depth ?m (consolidate now ?ps db) = Inr (Some oldest)"
    by (rule merge_shape [OF ids many, of now depth])
  define f where "f = (\<lambda>c. if c \<in> set others then demote now (id' oldest) c else c)"
  define d where "d = map f db"
  have d: "consolidate now ?ps db = d" using db1 by (simp add: d_def f_def)
  have mne: "?m \<noteq> []" using many by (auto simp: primaries_of_def)
  have first: "identify depth request now db =
       (if needs_secondary request (get_all_linked_contacts d (id' oldest))
        then (Inr (build_response (id' oldest)
                (get_all_linked_contacts d (id' oldest) @ [new_secondary request now (id' oldest) d])),
              d @ [new_secondary request now (id' oldest) d])
        else (Inr (build_response (id' oldest) (get_all_linked_contacts d (id' oldest))), d))"
    using identify_matched [OF valid mne res] by (simp add: Let_def d)
  have md: "matching_contacts request d = map f ?m"
    unfolding d_def by (rule matching_map) (simp_all add: f_def)
  have some: "matching_contacts request d \<noteq> []" using mne by (simp add: md)
  have dist: "distinct ?m" using ids by (simp add: matching_distinct distinct_map)
  have o_m: "oldest \<in> set ?m" using sps by (auto simp: primaries_of_def)
  have "filter (\<lambda>c. linkPrecedence (f c) = ''primary'') ?m = filter (\<lambda>c. c = oldest) ?m"
  proof (rule filter_cong [OF refl])
    fix c assume c: "c \<in> set ?m"
    show "(linkPrecedence (f c) = ''primary'') = (c = oldest)"
    proof
      assume p: "linkPrecedence (f c) = ''primary''"
      then have n: "c \<notin> set others" by (auto simp: f_def)
      with p have "linkPrecedence c = ''primary''" by (simp add: f_def)
      with c have "c \<in> set ?ps" by (simp add: primaries_of_def)
      with sps n show "c = oldest" by auto
    next
      assume "c = oldest"
      with o_not o_prim show "linkPrecedence (f c) = ''primary''" by (simp add: f_def)
    qed
  qed
  also have "\<dots> = [oldest]" using dist o_m by (rule filter_eq_single)
  finally have "primaries_of (matching_contacts request d) = map f [oldest]"
    by (simp add: md primaries_of_def filter_map comp_def)
  then have pd: "primaries_of (matching_contacts request d) = [oldest]"
    using o_not by (simp add: f_def)
  have few: "length (primaries_of (matching_contacts request d)) \<le> 1" by (simp add: pd)
  have res': "resolve_primary depth (matching_contacts request d) d = Inr (Some oldest)"
    by (simp add: resolve_primary_def pd sorted_primaries_def)
  have "query_by_id d (Some (id' oldest)) = map_option f (query_by_id db (Some (id' oldest)))"
    unfolding d_def by (rule query_by_id_map) (simp add: f_def)
  also have "\<dots> = Some oldest" using query_by_id_row [OF ids o_db] o_not by (simp add: f_def)
  finally have row: "query_by_id d (Some (id' oldest)) = Some oldest" .
  show ?thesis using valid first some few res' row o_prim by (rule idem_success)
qed

lemma idem_few:
  assumes ids: "distinct (map id' db)"
    and valid: "truthy (req_email request) \<or> truthy (req_phoneNumber request)"
    and some: "matching_contacts request db \<noteq> []"
    and few: "length (primaries_of (matching_contacts request db)) \<le> 1"
  shows "identify depth request now' (snd (identify depth request now db)) =
         identify depth request now db"
proof -
  let ?m = "matching_contacts request db"
  have c: "consolidate now (primaries_of ?m) db = db" using few by (rule consolidate_few)
  have success: ?thesis
    if res: "resolve_primary depth ?m db = Inr (Some pc)"
      and row: "query_by_id db (Some (id' pc)) = Some pc"
      and prim: "linkPrecedence pc = ''primary''" for pc
  proof -
    have first: "identify depth request now db =
       (if needs_secondary request (get_all_linked_contacts db (id' pc))
        then (Inr (build_response (id' pc)
                (get_all_linked_contacts db (id' pc) @ [new_secondary request now (id' pc) db])),
              db @ [new_secondary request now (id' pc) db])
        else (Inr (build_response (id' pc) (get_all_linked_contacts db (id' pc))), db))"
      using identify_matched [OF valid some, of depth now pc] res by (simp add: Let_def c)
    show ?thesis using valid first some few res row prim by (rule idem_success)
  qed
  show ?thesis
  proof (cases "primaries_of ?m = []")
    case False
    then obtain P where ps: "primaries_of ?m = [P]"
      using few by (cases "primaries_of ?m") auto
    have "P \<in> set (primaries_of ?m)" by (simp add: ps)
    then have P: "P \<in> set db" "linkPrecedence P = ''primary''"
      using primaries_subset [of request db] by (auto simp: primaries_of_def)
    have "resolve_primary depth ?m db = Inr (Some P)"
      by (simp add: resolve_primary_def ps sorted_primaries_def)
    then show ?thesis using query_by_id_row [OF ids P(1)] P(2) by (rule success)
  next
    case True
    have res: "resolve_primary depth ?m db = find_primary_contact depth db (linkedId (hd ?m))"
      using True by (simp add: resolve_primary_def)
    note err = identify_matched_err [OF valid some True]
    show ?thesis
    proof (cases "find_primary_contact depth db (linkedId (hd ?m))")
      case (Inl e)
      then show ?thesis by (simp add: err)
    next
      case (Inr r)
      show ?thesis
      proof (cases r)
        case None
        with Inr show ?thesis by (simp add: err)
      next
        case (Some pc)
        with Inr have f: "find_primary_contact depth db (linkedId (hd ?m)) = Inr (Some pc)" by simp
        then have r: "resolve_primary depth ?m db = Inr (Some pc)" using res by simp
        have row: "query_by_id db (Some (id' pc)) = Some pc"
          and prim: "linkPrecedence pc = ''primary''"
          using found_primary_row [OF f] by blast+
        show ?thesis using r row prim by (rule success)
      qed
    qed
  qed
qed

lemma idem_no_match:
  assumes wf: "wf_store db"
    and valid: "truthy (req_email request) \<or> truthy (req_phoneNumber request)"
    and none: "matching_contacts request db = []"
  shows "identify depth request now' (snd (identify depth request now db)) =
         identify depth request now db"
proof -
  define c where "c = new_contact request now db"
  define d where "d = db @ [c]"
  have first: "identify depth request now db =
      (Inr \<lparr>primaryContactId = id' c, emails = set (truthy_values [email c]),
            phoneNumbers = set (truthy_values [phoneNumber c]), secondaryContactIds = []\<rparr>, d)"
    using valid none by (auto simp: identify_def Let_def c_def d_def)
  have fresh: "\<forall>x\<in>set db. id' x \<noteq> next_id db" using next_id_greater by fastforce
  have nolink: "\<forall>x\<in>set db. linkedId x \<noteq> Some (next_id db)"
  proof
    fix x assume x: "x \<in> set db"
    show "linkedId x \<noteq> Some (next_id db)"
    proof
      assume "linkedId x = Some (next_id db)"
      with wf x have "next_id db \<in> set (map id' db)"
        by (auto simp: wf_store_def list_all_iff split: option.splits)
      with next_id_fresh show False by blast
    qed
  qed
  have e: "filter (\<lambda>x. truthy (req_email request) \<and> email x = req_email request) db = []"
    and p: "filter (\<lambda>x. (truthy (req_phoneNumber request) \<and>
               phoneNumber x = req_phoneNumber request) \<and>
               \<not> (truthy (req_email request) \<and> email x = req_email request)) db = []"
    using none by (simp_all add: matching_contacts_def)
  have "matching_contacts request d =
      filter (\<lambda>x. truthy (req_email request) \<and> email x = req_email request) [c] @
      filter (\<lambda>x. (truthy (req_phoneNumber request) \<and>
               phoneNumber x = req_phoneNumber request) \<and>
               \<not> (truthy (req_email request) \<and> email x = req_email request)) [c]"
    unfolding matching_contacts_def d_def filter_append e p by simp
  then have md: "matching_contacts request d = [c]"
    using valid by (auto simp: c_def)
  have pd: "primaries_of (matching_contacts request d) = [c]"
    by (simp add: md primaries_of_def c_def)
  have res: "resolve_primary depth (matching_contacts request d) d = Inr (Some c)"
    by (simp add: resolve_primary_def pd sorted_primaries_def)
  have q: "query_by_id d (Some (id' c)) = Some c"
    using fresh by (simp add: d_def c_def find_append_fresh)
  have "filter (\<lambda>x. linkedId x = Some (id' c) \<and> linkPrecedence x = ''secondary'') d = []"
    using nolink by (auto simp: d_def c_def filter_empty_conv)
  then have g: "get_all_linked_contacts d (id' c) = [c]"
    using graph_of_primary [OF q] by (simp add: c_def)
  have cov: "\<not> needs_secondary request (get_all_linked_contacts d (id' c))"
    unfolding g needs_secondary_iff by (simp add: c_def)
  have "identify depth request now' d = (Inr (build_response (id' c) [c]), d)"
    using identify_settled [OF valid _ _ res cov, of now'] by (simp add: md primaries_of_def g)
  also have "build_response (id' c) [c] =
      \<lparr>primaryContactId = id' c, emails = set (truthy_values [email c]),
       phoneNumbers = set (truthy_values [phoneNumber c]), secondaryContactIds = []\<rparr>"
    by (simp add: build_response_def c_def)
  finally show ?thesis by (simp add: first)
qed

text \<open>
  C3 (on stores that keep the key constraints). The store has unique ids, and every
  \<open>linkedId\<close> that is set is the id of a row of the store. Then a second call with the same
  request, on the store that the first call left, ends as the first did (the same response,
  or the same error) and leaves the store as the first call left it: it inserts nothing and
  demotes nothing.
\<close>

theorem identify_idempotent:
  assumes wf: "wf_store db"
  shows "identify depth request now' (snd (identify depth request now db)) =
         identify depth request now db"
proof (cases "truthy (req_email request) \<or> truthy (req_phoneNumber request)")
  case False
  then show ?thesis by (simp add: identify_def)
next
  case valid: True
  have ids: "distinct (map id' db)" using wf by (simp add: wf_store_def)
  show ?thesis
  proof (cases "matching_contacts request db = []")
    case True
    with wf valid show ?thesis by (rule idem_no_match)
  next
    case some: False
    show ?thesis
    proof (cases "length (primaries_of (matching_contacts request db)) > 1")
      case True
      with ids valid show ?thesis by (rule idem_merge)
    next
      case False
      then have "length (primaries_of (matching_contacts request db)) \<le> 1" by simp
      with ids valid some show ?thesis by (rule idem_few)
    qed
  qed
qed

text \<open>
  C3 (as stated, for every store) fails on a store with a dangling link: row 1 is a
  secondary whose \<open>linkedId\<close> is 2, and no row has the id 2 yet. A request that matches
  nothing creates the primary 2; the response of the first call is that row alone. The
  repeat finds row 1 linked to the new primary and returns its email, phone number and id
  as well.
\<close>

theorem identify_repeat_differs:
  "identify 900 \<lparr>req_email = Some ''b'', req_phoneNumber = None\<rparr> 9
     [contact_row 1 (Some ''a'') (Some ''1'') (Some 2) ''secondary'' 1] =
     (Inr \<lparr>primaryContactId = 2, emails = {''b''}, phoneNumbers = {}, secondaryContactIds = []\<rparr>,
      [contact_row 1 (Some ''a'') (Some ''1'') (Some 2) ''secondary'' 1,
       contact_row 2 (Some ''b'') None None ''primary'' 9]) \<and>
   identify 900 \<lparr>req_email = Some ''b'', req_phoneNumber = None\<rparr> 10
     [contact_row 1 (Some ''a'') (Some ''1'') (Some 2) ''secondary'' 1,
      contact_row 2 (Some ''b'') None None ''primary'' 9] =
     (Inr \<lparr>primaryContactId = 2, emails = {''a'', ''b''}, phoneNumbers = {''1''},
           secondaryContactIds = [1]\<rparr>,
      [contact_row 1 (Some ''a'') (Some ''1'') (Some 2) ''secondary'' 1,
       contact_row 2 (Some ''b'') None None ''primary'' 9])"
  by code_simp

text \<open>
  The instance below is a store that four calls of \<open>identify\<close> build from the empty store. The
  first call inserts row 5, a secondary of primary 2; the repeat returns the same response
  and leaves the five rows as they are.
\<close>

theorem identify_idempotent_witness:
  "wf_store
     [contact_row 1 (Some ''a'') (Some ''1'') None ''primary'' 1,
      contact_row 2 (Some ''b'') (Some ''2'') None ''primary'' 2,
      contact_row 3 (Some ''a'') (Some ''3'') (Some 1) ''secondary'' 3,
      contact_row 4 (Some ''d'') (Some ''2'') (Some 2) ''secondary'' 4] \<and>
   identify 900 \<lparr>req_email = Some ''d'', req_phoneNumber = Some ''3''\<rparr> 10
     (snd (identify 900 \<lparr>req_email = Some ''d'', req_phoneNumber = Some ''3''\<rparr> 9
        [contact_row 1 (Some ''a'') (Some ''1'') None ''primary'' 1,
         contact_row 2 (Some ''b'') (Some ''2'') None ''primary'' 2,
         contact_row 3 (Some ''a'') (Some ''3'') (Some 1) ''secondary'' 3,
         contact_row 4 (Some ''d'') (Some ''2'') (Some 2) ''secondary'' 4])) =
     (Inr \<lparr>primaryContactId = 2, emails = {''b'', ''d''}, phoneNumbers = {''2'', ''3''},
           secondaryContactIds = [4, 5]\<rparr>,
      [contact_row 1 (Some ''a'') (Some ''1'') None ''primary'' 1,
       contact_row 2 (Some ''b'') (Some ''2'') None ''primary'' 2,
       contact_row 3 (Some ''a'') (Some ''3'') (Some 1) ''secondary'' 3,
       contact_row 4 (Some ''d'') (Some ''2'') (Some 2) ''secondary'' 4,
       contact_row 5 (Some ''d'') (Some ''3'') (Some 2) ''secondary'' 9])"
proof -
  let ?db = "[contact_row 1 (Some ''a'') (Some ''1'') None ''primary'' 1,
      contact_row 2 (Some ''b'') (Some ''2'') None ''primary'' 2,
      contact_row 3 (Some ''a'') (Some ''3'') (Some 1) ''secondary'' 3,
      contact_row 4 (Some ''d'') (Some ''2'') (Some 2) ''secondary'' 4]"
  let ?rq = "\<lparr>req_email = Some ''d'', req_phoneNumber = Some ''3''\<rparr>"
  have h: "wf_store ?db" by (simp add: wf_store_def contact_row_def)
  have r: "identify 900 ?rq 9 ?db =
     (Inr \<lparr>primaryContactId = 2, emails = {''b'', ''d''}, phoneNumbers = {''2'', ''3''},
           secondaryContactIds = [4, 5]\<rparr>,
      ?db @ [contact_row 5 (Some ''d'') (Some ''3'') (Some 2) ''secondary'' 9])" by code_simp
  from identify_idempotent [OF h, of 900 ?rq 10 9] h show ?thesis unfolding r by simp
qed

end
